theory Spec2Isabelle
  imports Main
begin

section \<open>Strings and the lookups of the object-relational mapper\<close>

text \<open>
  Strings are lists of 8-bit characters. The \<open>iexact\<close> and \<open>icontains\<close> lookups
  compare without regard to case; the folding modelled is that of the ASCII letters, on
  which the database backends agree. Both lookups escape the wildcard characters of the
  term, so that \<open>icontains\<close> is a plain substring test.
\<close>

definition chr_lower :: "char \<Rightarrow> char" where
  "chr_lower c =
     (let n = (of_char c :: nat) in if 65 \<le> n \<and> n \<le> 90 then char_of (n + 32) else c)"

definition str_lower :: "string \<Rightarrow> string" where
  "str_lower s = map chr_lower s"

definition iexact :: "string \<Rightarrow> string \<Rightarrow> bool" where
  \<comment> \<open>\<open>field__iexact=value\<close>\<close>
  "iexact field v = (str_lower field = str_lower v)"

fun startswith :: "string \<Rightarrow> string \<Rightarrow> bool" where
  "startswith s [] = True"
| "startswith [] (c # cs) = False"
| "startswith (d # ds) (c # cs) = (d = c \<and> startswith ds cs)"

fun contains :: "string \<Rightarrow> string \<Rightarrow> bool" where
  "contains [] t = (t = [])"
| "contains (d # ds) t = (startswith (d # ds) t \<or> contains ds t)"

definition icontains :: "string \<Rightarrow> string \<Rightarrow> bool" where
  \<comment> \<open>\<open>field__icontains=value\<close>\<close>
  "icontains field v = contains (str_lower field) (str_lower v)"

definition is_substring :: "string \<Rightarrow> string \<Rightarrow> bool" where
  \<comment> \<open>The specification's words: the term occurs somewhere inside the text.\<close>
  "is_substring t s = (\<exists>u v. s = u @ t @ v)"

section \<open>Entities and tables\<close>

text \<open>
  A stored object is its primary key with its fields; a table lists the stored objects in
  the store's default order. The join table of the Post-Tag relation holds no entity and
  no handler of the program reads it, so it is left out.
\<close>

type_synonym 'a obj = "nat \<times> 'a"
type_synonym 'a table = "'a obj list"

text \<open>
  Modelled from the spec: the field lists of the two entity kinds, whose declarations
  (the models module) are not part of the sources at hand.
\<close>

record post =
  title :: string
  body :: string
  slug :: string
  date_pub :: nat

record tag =
  tag_name :: string
  tag_slug :: string

record store =
  posts :: "post table"
  tags :: "tag table"

text \<open>
  What the handlers use of a model class: its name, its slug field and the address of an
  object's page (\<open>get_absolute_url\<close>, declared with the models and taken as a parameter).
\<close>

record 'a model =
  model_name :: string
  slug_of :: "'a \<Rightarrow> string"
  get_absolute_url :: "'a obj \<Rightarrow> string"

definition Post :: "(post obj \<Rightarrow> string) \<Rightarrow> post model" where
  "Post url = \<lparr>model_name = ''Post'', slug_of = slug, get_absolute_url = url\<rparr>"

definition Tag :: "(tag obj \<Rightarrow> string) \<Rightarrow> tag model" where
  "Tag url = \<lparr>model_name = ''Tag'', slug_of = tag_slug, get_absolute_url = url\<rparr>"

datatype error =
  Http404 | DoesNotExist | MultipleObjectsReturned | PermissionDenied
  | PageNotAnInteger | EmptyPage

definition slug_matches :: "'a model \<Rightarrow> string \<Rightarrow> 'a obj \<Rightarrow> bool" where
  "slug_matches m s ob = iexact (slug_of m (snd ob)) s"

definition objects_get :: "'a model \<Rightarrow> 'a table \<Rightarrow> string \<Rightarrow> error + 'a obj" where
  \<comment> \<open>\<open>model.objects.get(slug__iexact=slug)\<close>\<close>
  "objects_get m tbl s =
     (case filter (slug_matches m s) tbl of
        [] \<Rightarrow> Inl DoesNotExist
      | [ob] \<Rightarrow> Inr ob
      | _ \<Rightarrow> Inl MultipleObjectsReturned)"

definition get_object_or_404 :: "'a model \<Rightarrow> 'a table \<Rightarrow> string \<Rightarrow> error + 'a obj" where
  "get_object_or_404 m tbl s =
     (case objects_get m tbl s of
        Inl DoesNotExist \<Rightarrow> Inl Http404
      | r \<Rightarrow> r)"

definition fresh_pk :: "'a table \<Rightarrow> nat" where
  \<comment> \<open>the key an insert assigns is the database's choice among the unused ones;
      taken here as one more than the largest key in the table\<close>
  "fresh_pk tbl = Suc (fold max (map fst tbl) 0)"

definition insert_row :: "'a \<Rightarrow> 'a table \<Rightarrow> 'a obj \<times> 'a table" where
  "insert_row flds tbl = (let ob = (fresh_pk tbl, flds) in (ob, tbl @ [ob]))"

definition update_row :: "nat \<Rightarrow> 'a \<Rightarrow> 'a table \<Rightarrow> 'a obj \<times> 'a table" where
  "update_row pk flds tbl =
     ((pk, flds), map (\<lambda>ob. if fst ob = pk then (pk, flds) else ob) tbl)"

definition delete_row :: "'a obj \<Rightarrow> 'a table \<Rightarrow> 'a table" where
  \<comment> \<open>\<open>obj.delete()\<close>\<close>
  "delete_row ob tbl = filter (\<lambda>r. fst r \<noteq> fst ob) tbl"

section \<open>Requests, forms and responses\<close>

type_synonym querydict = "(string \<times> string) list"

definition querydict_get :: "querydict \<Rightarrow> string \<Rightarrow> string option" where
  \<comment> \<open>\<open>QueryDict.get(key)\<close>: the last value given for the key\<close>
  "querydict_get qd k =
     (case filter (\<lambda>kv. fst kv = k) qd of [] \<Rightarrow> None | kvs \<Rightarrow> Some (snd (last kvs)))"

record request =
  http_method :: string
  is_authenticated :: bool
  GET :: querydict
  POST :: querydict

text \<open>
  The forms module is not part of the sources either. A model form is taken as a
  parameter: its model, its validation (the field errors of the submitted data, which may
  consult the instance being edited and the table, as a uniqueness check does) and the
  fields of its instance once validation has run. Validation writes the values it accepts
  into the instance, also when other fields fail, and \<open>save\<close> stores the instance.
\<close>

record 'a model_form =
  form_model :: "'a model"
  full_clean :: "querydict \<Rightarrow> 'a obj option \<Rightarrow> 'a table \<Rightarrow> (string \<times> string) list"
  cleaned :: "querydict \<Rightarrow> 'a obj option \<Rightarrow> 'a"

record 'a form =
  data :: "querydict option"
  form_instance :: "'a obj option"
  errors :: "(string \<times> string) list"

definition new_form :: "'a model_form \<Rightarrow> querydict option \<Rightarrow> 'a obj option \<Rightarrow> 'a table \<Rightarrow> 'a form" where
  \<comment> \<open>\<open>model_form(data, instance=obj)\<close>; an unbound form has no errors\<close>
  "new_form mf d inst tbl =
     \<lparr>data = d, form_instance = inst,
      errors = (case d of None \<Rightarrow> [] | Some qd \<Rightarrow> full_clean mf qd inst tbl)\<rparr>"

definition is_valid :: "'a form \<Rightarrow> bool" where
  \<comment> \<open>\<open>is_bound and not errors\<close>\<close>
  "is_valid f = (data f \<noteq> None \<and> errors f = [])"

definition form_save :: "'a model_form \<Rightarrow> 'a form \<Rightarrow> 'a table \<Rightarrow> 'a obj \<times> 'a table" where
  \<comment> \<open>called on valid bound forms only: an insert without instance, an update with one\<close>
  "form_save mf f tbl =
     (let flds = cleaned mf (case data f of None \<Rightarrow> [] | Some qd \<Rightarrow> qd) (form_instance f) in
      case form_instance f of
        None \<Rightarrow> insert_row flds tbl
      | Some ob \<Rightarrow> update_row (fst ob) flds tbl)"

record 'a paginator =
  object_list :: "'a obj list"
  per_page :: nat

record 'a page =
  page_object_list :: "'a obj list"
  number :: int
  paginator :: "'a paginator"

datatype 'a ctxval =
  CObj "'a obj" | CObjs "'a obj list" | CBool bool | CStr string
  | CForm "'a form" | CPage "'a page"

datatype 'a response =
  Render string "(string \<times> 'a ctxval) list"
  | Redirect string
  | HttpResponseNotAllowed
  | HttpResponseOptions

type_synonym ('a, 's) result = "(error + 'a response) \<times> 's"

definition wf_table :: "'a table \<Rightarrow> bool" where
  \<comment> \<open>the primary key identifies the row\<close>
  "wf_table tbl = distinct (map fst tbl)"

section \<open>The generic handlers\<close>

definition ObjectDetailMixin_get ::
  "'a model \<Rightarrow> string \<Rightarrow> request \<Rightarrow> string \<Rightarrow> 'a table \<Rightarrow> ('a, 'a table) result" where
  "ObjectDetailMixin_get model template request slg tbl =
     (case get_object_or_404 model tbl slg of
        Inl e \<Rightarrow> (Inl e, tbl)
      | Inr ob \<Rightarrow>
          (Inr (Render template
             [(str_lower (model_name model), CObj ob), (''admin_object'', CObj ob),
              (''detail'', CBool True)]), tbl))"

definition ObjectCreateMixin_get ::
  "'a model_form \<Rightarrow> string \<Rightarrow> request \<Rightarrow> 'a table \<Rightarrow> ('a, 'a table) result" where
  "ObjectCreateMixin_get model_form template request tbl =
     (let form = new_form model_form None None tbl in
      (Inr (Render template [(''form'', CForm form)]), tbl))"

definition ObjectCreateMixin_post ::
  "'a model_form \<Rightarrow> string \<Rightarrow> request \<Rightarrow> 'a table \<Rightarrow> ('a, 'a table) result" where
  "ObjectCreateMixin_post model_form template request tbl =
     (let bound_form = new_form model_form (Some (POST request)) None tbl in
      if is_valid bound_form then
        (case form_save model_form bound_form tbl of
           (new_obj, tbl') \<Rightarrow>
             (Inr (Redirect (get_absolute_url (form_model model_form) new_obj)), tbl'))
      else (Inr (Render template [(''form'', CForm bound_form)]), tbl))"

definition ObjectUpdateMixin_get ::
  "'a model \<Rightarrow> 'a model_form \<Rightarrow> string \<Rightarrow> request \<Rightarrow> string \<Rightarrow> 'a table
     \<Rightarrow> ('a, 'a table) result" where
  "ObjectUpdateMixin_get model model_form template request slg tbl =
     (case objects_get model tbl slg of
        Inl e \<Rightarrow> (Inl e, tbl)
      | Inr ob \<Rightarrow>
          (let bound_form = new_form model_form None (Some ob) tbl in
           (Inr (Render template
              [(''form'', CForm bound_form), (str_lower (model_name model), CObj ob)]), tbl)))"

definition ObjectUpdateMixin_post ::
  "'a model \<Rightarrow> 'a model_form \<Rightarrow> string \<Rightarrow> request \<Rightarrow> string \<Rightarrow> 'a table
     \<Rightarrow> ('a, 'a table) result" where
  "ObjectUpdateMixin_post model model_form template request slg tbl =
     (case objects_get model tbl slg of
        Inl e \<Rightarrow> (Inl e, tbl)
      | Inr ob \<Rightarrow>
          (let bound_form = new_form model_form (Some (POST request)) (Some ob) tbl in
           if is_valid bound_form then
             (case form_save model_form bound_form tbl of
                (new_obj, tbl') \<Rightarrow>
                  (Inr (Redirect (get_absolute_url (form_model model_form) new_obj)), tbl'))
           else
             (let ob' = (fst ob, cleaned model_form (POST request) (Some ob)) in
              (Inr (Render template
                 [(''form'', CForm (bound_form\<lparr>form_instance := Some ob'\<rparr>)),
                  (str_lower (model_name model), CObj ob')]), tbl))))"

definition ObjectDeleteMixin_get ::
  "'a model \<Rightarrow> string \<Rightarrow> request \<Rightarrow> string \<Rightarrow> 'a table \<Rightarrow> ('a, 'a table) result" where
  "ObjectDeleteMixin_get model template request slg tbl =
     (case objects_get model tbl slg of
        Inl e \<Rightarrow> (Inl e, tbl)
      | Inr ob \<Rightarrow> (Inr (Render template [(str_lower (model_name model), CObj ob)]), tbl))"

text \<open>
  \<open>reverse\<close> resolves the name of a route to its address; the routing table is not part
  of the sources, so the resolver is a parameter.
\<close>

definition ObjectDeleteMixin_post ::
  "'a model \<Rightarrow> string \<Rightarrow> (string \<Rightarrow> string) \<Rightarrow> request \<Rightarrow> string \<Rightarrow> 'a table
     \<Rightarrow> ('a, 'a table) result" where
  "ObjectDeleteMixin_post model redirect_url reverse request slg tbl =
     (case objects_get model tbl slg of
        Inl e \<Rightarrow> (Inl e, tbl)
      | Inr ob \<Rightarrow> (Inr (Redirect (reverse redirect_url)), delete_row ob tbl))"

section \<open>Dispatch and the login requirement\<close>

definition View_dispatch ::
  "request \<Rightarrow> ('s \<Rightarrow> ('a, 's) result) option \<Rightarrow> ('s \<Rightarrow> ('a, 's) result) option \<Rightarrow> 's
     \<Rightarrow> ('a, 's) result" where
  \<comment> \<open>the handlers a view class defines for \<open>get\<close> and \<open>post\<close>; \<open>head\<close> is served by \<open>get\<close>\<close>
  "View_dispatch request get post st =
     (let m = str_lower (http_method request) in
      if m = ''get'' \<or> m = ''head'' then
        (case get of Some h \<Rightarrow> h st | None \<Rightarrow> (Inr HttpResponseNotAllowed, st))
      else if m = ''post'' then
        (case post of Some h \<Rightarrow> h st | None \<Rightarrow> (Inr HttpResponseNotAllowed, st))
      else if m = ''options'' then (Inr HttpResponseOptions, st)
      else (Inr HttpResponseNotAllowed, st))"

definition handle_no_permission :: "bool \<Rightarrow> request \<Rightarrow> error + 'a response" where
  "handle_no_permission raise_exception request =
     (if raise_exception \<or> is_authenticated request then Inl PermissionDenied
      else Inr (Redirect ''login''))"

definition LoginRequiredMixin_dispatch ::
  "bool \<Rightarrow> request \<Rightarrow> ('s \<Rightarrow> ('a, 's) result) \<Rightarrow> 's \<Rightarrow> ('a, 's) result" where
  "LoginRequiredMixin_dispatch raise_exception request super st =
     (if \<not> is_authenticated request then (handle_no_permission raise_exception request, st)
      else super st)"

definition on_posts :: "(post table \<Rightarrow> ('a, post table) result) \<Rightarrow> store \<Rightarrow> ('a, store) result" where
  "on_posts h st = (case h (posts st) of (r, tbl) \<Rightarrow> (r, st\<lparr>posts := tbl\<rparr>))"

definition on_tags :: "(tag table \<Rightarrow> ('a, tag table) result) \<Rightarrow> store \<Rightarrow> ('a, store) result" where
  "on_tags h st = (case h (tags st) of (r, tbl) \<Rightarrow> (r, st\<lparr>tags := tbl\<rparr>))"

section \<open>The views\<close>

definition PostDetail :: "post model \<Rightarrow> request \<Rightarrow> string \<Rightarrow> store \<Rightarrow> (post, store) result" where
  "PostDetail model request slg =
     View_dispatch request
       (Some (on_posts (ObjectDetailMixin_get model ''blog/post_detail.html'' request slg)))
       None"

definition PostCreate :: "post model_form \<Rightarrow> request \<Rightarrow> store \<Rightarrow> (post, store) result" where
  "PostCreate PostForm request =
     LoginRequiredMixin_dispatch True request
       (View_dispatch request
          (Some (on_posts (ObjectCreateMixin_get PostForm ''blog/post_create_form.html'' request)))
          (Some (on_posts (ObjectCreateMixin_post PostForm ''blog/post_create_form.html'' request))))"

definition PostUpdate ::
  "post model \<Rightarrow> post model_form \<Rightarrow> request \<Rightarrow> string \<Rightarrow> store \<Rightarrow> (post, store) result" where
  "PostUpdate model PostForm request slg =
     LoginRequiredMixin_dispatch True request
       (View_dispatch request
          (Some (on_posts
             (ObjectUpdateMixin_get model PostForm ''blog/post_update_form.html'' request slg)))
          (Some (on_posts
             (ObjectUpdateMixin_post model PostForm ''blog/post_update_form.html'' request slg))))"

definition PostDelete ::
  "post model \<Rightarrow> (string \<Rightarrow> string) \<Rightarrow> request \<Rightarrow> string \<Rightarrow> store \<Rightarrow> (post, store) result" where
  "PostDelete model reverse request slg =
     LoginRequiredMixin_dispatch True request
       (View_dispatch request
          (Some (on_posts (ObjectDeleteMixin_get model ''blog/post_delete_form.html'' request slg)))
          (Some (on_posts (ObjectDeleteMixin_post model ''posts_list_url'' reverse request slg))))"

definition TagDetail :: "tag model \<Rightarrow> request \<Rightarrow> string \<Rightarrow> store \<Rightarrow> (tag, store) result" where
  "TagDetail model request slg =
     View_dispatch request
       (Some (on_tags (ObjectDetailMixin_get model ''blog/tag_detail.html'' request slg)))
       None"

definition TagCreate :: "tag model_form \<Rightarrow> request \<Rightarrow> store \<Rightarrow> (tag, store) result" where
  "TagCreate TagForm request =
     LoginRequiredMixin_dispatch True request
       (View_dispatch request
          (Some (on_tags (ObjectCreateMixin_get TagForm ''blog/tag_create.html'' request)))
          (Some (on_tags (ObjectCreateMixin_post TagForm ''blog/tag_create.html'' request))))"

definition TagUpdate ::
  "tag model \<Rightarrow> tag model_form \<Rightarrow> request \<Rightarrow> string \<Rightarrow> store \<Rightarrow> (tag, store) result" where
  "TagUpdate model TagForm request slg =
     LoginRequiredMixin_dispatch True request
       (View_dispatch request
          (Some (on_tags
             (ObjectUpdateMixin_get model TagForm ''blog/tag_update_form.html'' request slg)))
          (Some (on_tags
             (ObjectUpdateMixin_post model TagForm ''blog/tag_update_form.html'' request slg))))"

definition TagDelete ::
  "tag model \<Rightarrow> (string \<Rightarrow> string) \<Rightarrow> request \<Rightarrow> string \<Rightarrow> store \<Rightarrow> (tag, store) result" where
  "TagDelete model reverse request slg =
     LoginRequiredMixin_dispatch True request
       (View_dispatch request
          (Some (on_tags (ObjectDeleteMixin_get model ''blog/tag_delete_form.html'' request slg)))
          (Some (on_tags (ObjectDeleteMixin_post model ''tags_list_url'' reverse request slg))))"

definition tags_list :: "request \<Rightarrow> store \<Rightarrow> error + tag response" where
  "tags_list request st = Inr (Render ''blog/tags_list.html'' [(''tags'', CObjs (tags st))])"

section \<open>Pagination and the list of posts\<close>

text \<open>
  A page number arrives as the query string's text, or is the integer 1 when the query
  string has none. What \<open>int\<close> makes of a string belongs to the interpreter and differs
  between its versions (the white space and the digits it accepts, a cap on the length of
  a numeral), so the conversion of strings is the parameter \<open>int_str\<close> of everything that
  validates a page number; \<open>None\<close> stands for its \<open>ValueError\<close>.
\<close>

datatype pyval = PyInt int | PyStr string

definition py_int :: "(string \<Rightarrow> int option) \<Rightarrow> pyval \<Rightarrow> int option" where
  \<comment> \<open>\<open>int(number)\<close>\<close>
  "py_int int_str v = (case v of PyInt n \<Rightarrow> Some n | PyStr s \<Rightarrow> int_str s)"

fun str_nat :: "nat \<Rightarrow> string" where
  "str_nat n =
     (if n < 10 then [char_of (48 + n)] else str_nat (n div 10) @ [char_of (48 + n mod 10)])"

declare str_nat.simps [simp del]

definition str_int :: "int \<Rightarrow> string" where
  \<comment> \<open>\<open>'{}'.format(n)\<close>\<close>
  "str_int n = (if n < 0 then CHR ''-'' # str_nat (nat (- n)) else str_nat (nat n))"

definition py_index :: "int \<Rightarrow> nat \<Rightarrow> nat" where
  \<comment> \<open>a slice bound, counted from the end when negative and clipped to the length\<close>
  "py_index i n = (if i < 0 then nat (max 0 (int n + i)) else min (nat i) n)"

definition py_slice :: "'a list \<Rightarrow> int \<Rightarrow> int \<Rightarrow> 'a list" where
  \<comment> \<open>\<open>xs[bottom:top]\<close>\<close>
  "py_slice xs bottom top' =
     (let lo = py_index bottom (length xs); hi = py_index top' (length xs)
      in take (hi - lo) (drop lo xs))"

text \<open>
  The paginator with its defaults: no orphans, an empty first page allowed. The program
  builds one paginator, of page size 10, so the division below never has a zero divisor.
\<close>

definition paginator_count :: "'a paginator \<Rightarrow> nat" where
  "paginator_count p = length (object_list p)"

definition num_pages :: "'a paginator \<Rightarrow> nat" where
  \<comment> \<open>\<open>ceil(max(1, count) / per_page)\<close>\<close>
  "num_pages p =
     (let hits = max 1 (paginator_count p) in (hits + per_page p - 1) div per_page p)"

definition validate_number ::
  "(string \<Rightarrow> int option) \<Rightarrow> 'a paginator \<Rightarrow> pyval \<Rightarrow> error + int" where
  "validate_number int_str p v =
     (case py_int int_str v of
        None \<Rightarrow> Inl PageNotAnInteger
      | Some n \<Rightarrow>
          if n < 1 then Inl EmptyPage
          else if n > int (num_pages p) then (if n = 1 then Inr n else Inl EmptyPage)
          else Inr n)"

definition paginator_page ::
  "(string \<Rightarrow> int option) \<Rightarrow> 'a paginator \<Rightarrow> pyval \<Rightarrow> error + 'a page" where
  "paginator_page int_str p v =
     (case validate_number int_str p v of
        Inl e \<Rightarrow> Inl e
      | Inr n \<Rightarrow>
          (let bottom = (n - 1) * int (per_page p);
               top0 = bottom + int (per_page p);
               top' = (if top0 \<ge> int (paginator_count p) then int (paginator_count p) else top0)
           in Inr \<lparr>page_object_list = py_slice (object_list p) bottom top',
                   number = n, paginator = p\<rparr>))"

definition get_page ::
  "(string \<Rightarrow> int option) \<Rightarrow> 'a paginator \<Rightarrow> pyval \<Rightarrow> error + 'a page" where
  "get_page int_str p v =
     (case validate_number int_str p v of
        Inr n \<Rightarrow> paginator_page int_str p (PyInt n)
      | Inl PageNotAnInteger \<Rightarrow> paginator_page int_str p (PyInt 1)
      | Inl EmptyPage \<Rightarrow> paginator_page int_str p (PyInt (int (num_pages p)))
      | Inl e \<Rightarrow> Inl e)"

definition has_next :: "'a page \<Rightarrow> bool" where
  "has_next pg = (number pg < int (num_pages (paginator pg)))"

definition has_previous :: "'a page \<Rightarrow> bool" where
  "has_previous pg = (number pg > 1)"

definition has_other_pages :: "'a page \<Rightarrow> bool" where
  "has_other_pages pg = (has_previous pg \<or> has_next pg)"

definition next_page_number :: "(string \<Rightarrow> int option) \<Rightarrow> 'a page \<Rightarrow> error + int" where
  "next_page_number int_str pg = validate_number int_str (paginator pg) (PyInt (number pg + 1))"

definition previous_page_number ::
  "(string \<Rightarrow> int option) \<Rightarrow> 'a page \<Rightarrow> error + int" where
  "previous_page_number int_str pg = validate_number int_str (paginator pg) (PyInt (number pg - 1))"

definition post_matches :: "string \<Rightarrow> post obj \<Rightarrow> bool" where
  \<comment> \<open>\<open>Q(title__icontains=search_query) | Q(body__icontains=search_query)\<close>\<close>
  "post_matches search_query ob =
     (icontains (title (snd ob)) search_query \<or> icontains (body (snd ob)) search_query)"

definition page_url :: "error + int \<Rightarrow> error + string" where
  \<comment> \<open>\<open>'?page={}'.format(...)\<close> of a page number that may have raised\<close>
  "page_url r = (case r of Inl e \<Rightarrow> Inl e | Inr n \<Rightarrow> Inr (''?page='' @ str_int n))"

definition search_query :: "request \<Rightarrow> string" where
  \<comment> \<open>\<open>request.GET.get('search', '')\<close>\<close>
  "search_query request =
     (case querydict_get (GET request) ''search'' of None \<Rightarrow> [] | Some v \<Rightarrow> v)"

definition page_number :: "request \<Rightarrow> pyval" where
  \<comment> \<open>\<open>request.GET.get('page', 1)\<close>\<close>
  "page_number request =
     (case querydict_get (GET request) ''page'' of None \<Rightarrow> PyInt 1 | Some v \<Rightarrow> PyStr v)"

definition posts_queryset :: "request \<Rightarrow> store \<Rightarrow> post obj list" where
  \<comment> \<open>the variable \<open>posts\<close>: the filtered posts under a search term, all posts without one\<close>
  "posts_queryset request st =
     (if search_query request \<noteq> []
      then filter (post_matches (search_query request)) (posts st)
      else posts st)"

definition posts_list ::
  "(string \<Rightarrow> int option) \<Rightarrow> request \<Rightarrow> store \<Rightarrow> error + post response" where
  "posts_list int_str request st =
     (let pgn = \<lparr>object_list = posts_queryset request st, per_page = 10\<rparr>
      in case get_page int_str pgn (page_number request) of
           Inl e \<Rightarrow> Inl e
         | Inr pg \<Rightarrow>
             (let is_paginated = has_other_pages pg in
              case (if has_previous pg then page_url (previous_page_number int_str pg) else Inr [])
              of Inl e \<Rightarrow> Inl e
               | Inr prev_url \<Rightarrow>
                   (case (if has_next pg then page_url (next_page_number int_str pg) else Inr [])
                    of Inl e \<Rightarrow> Inl e
                     | Inr next_url \<Rightarrow>
                         Inr (Render ''blog/index.html''
                            [(''page_object'', CPage pg), (''is_paginated'', CBool is_paginated),
                             (''next_url'', CStr next_url), (''prev_url'', CStr prev_url)]))))"

section \<open>A small blog for concrete runs\<close>

definition hello_post :: "post obj" where
  "hello_post =
     (1, \<lparr>title = ''Hello World'', body = ''First post'', slug = ''Hello'', date_pub = 0\<rparr>)"

definition news_tag :: "tag obj" where
  "news_tag = (1, \<lparr>tag_name = ''News'', tag_slug = ''news''\<rparr>)"

definition blog :: store where
  "blog = \<lparr>posts = [hello_post], tags = [news_tag]\<rparr>"

definition post_url :: "post obj \<Rightarrow> string" where
  "post_url ob = ''/blog/post/'' @ slug (snd ob) @ ''/''"

definition tag_url :: "tag obj \<Rightarrow> string" where
  "tag_url ob = ''/blog/tag/'' @ tag_slug (snd ob) @ ''/''"

definition routes :: "string \<Rightarrow> string" where
  "routes nm = (if nm = ''posts_list_url'' then ''/blog/''
                else if nm = ''tags_list_url'' then ''/blog/tags/'' else ''/'')"

definition field :: "querydict \<Rightarrow> string \<Rightarrow> string" where
  "field qd k = (case querydict_get qd k of None \<Rightarrow> [] | Some v \<Rightarrow> v)"

definition required :: "querydict \<Rightarrow> string \<Rightarrow> (string \<times> string) list" where
  "required qd k = (if field qd k = [] then [(k, ''This field is required.'')] else [])"

definition SamplePostForm :: "post model_form" where
  "SamplePostForm =
     \<lparr>form_model = Post post_url,
      full_clean = (\<lambda>qd inst tbl. required qd ''title'' @ required qd ''slug''),
      cleaned = (\<lambda>qd inst.
        \<lparr>title = field qd ''title'', body = field qd ''body'', slug = field qd ''slug'',
         date_pub = (case inst of None \<Rightarrow> 0 | Some ob \<Rightarrow> date_pub (snd ob))\<rparr>)\<rparr>"

definition SampleTagForm :: "tag model_form" where
  "SampleTagForm =
     \<lparr>form_model = Tag tag_url,
      full_clean = (\<lambda>qd inst tbl. required qd ''title'' @ required qd ''slug''),
      cleaned = (\<lambda>qd inst. \<lparr>tag_name = field qd ''title'', tag_slug = field qd ''slug''\<rparr>)\<rparr>"

definition visitor :: "string \<Rightarrow> querydict \<Rightarrow> request" where
  \<comment> \<open>a request without a session\<close>
  "visitor m qd = \<lparr>http_method = m, is_authenticated = False, GET = qd, POST = []\<rparr>"

definition editor :: "string \<Rightarrow> querydict \<Rightarrow> request" where
  \<comment> \<open>a request of a logged-in user, with the submitted fields\<close>
  "editor m qd = \<lparr>http_method = m, is_authenticated = True, GET = [], POST = qd\<rparr>"

definition new_fields :: querydict where
  "new_fields = [(''title'', ''Second''), (''slug'', ''second''), (''body'', ''More text'')]"

text \<open>
  A conversion for the concrete runs: the decimal numerals of ASCII text as \<open>int\<close> reads
  them, with white space around, one sign, and digits with single underscores between them.
  It stands for \<open>int\<close> on short ASCII text only; text with other characters it rejects,
  where \<open>int\<close> knows further white space and digits. No statement about the list view
  depends on it: each is proved for every conversion.
\<close>

definition is_space :: "char \<Rightarrow> bool" where
  "is_space c = (let n = (of_char c :: nat) in (9 \<le> n \<and> n \<le> 13) \<or> n = 32)"

definition strip :: "string \<Rightarrow> string" where
  "strip s = rev (dropWhile is_space (rev (dropWhile is_space s)))"

definition is_digit :: "char \<Rightarrow> bool" where
  "is_digit c = (let n = (of_char c :: nat) in 48 \<le> n \<and> n \<le> 57)"

fun digits_value :: "string \<Rightarrow> bool \<Rightarrow> nat \<Rightarrow> nat option" where
  "digits_value [] after_digit acc = (if after_digit then Some acc else None)"
| "digits_value (c # cs) after_digit acc =
     (if is_digit c then digits_value cs True (10 * acc + (of_char c - 48))
      else if c = CHR ''_'' \<and> after_digit then digits_value cs False acc
      else None)"

definition ascii_int :: "string \<Rightarrow> int option" where
  "ascii_int s =
     (case strip s of
        [] \<Rightarrow> None
      | c # cs \<Rightarrow>
          if c = CHR ''-'' then map_option (\<lambda>n. - int n) (digits_value cs False 0)
          else if c = CHR ''+'' then map_option int (digits_value cs False 0)
          else map_option int (digits_value (c # cs) False 0))"

definition numbered_post :: "nat \<Rightarrow> post obj" where
  "numbered_post k =
     (k, \<lparr>title = ''Post'', body = ''Text'', slug = ''post-'' @ str_nat k, date_pub = k\<rparr>)"

definition blog25 :: store where
  "blog25 = \<lparr>posts = map numbered_post [1..<26], tags = []\<rparr>"

section \<open>Facts about strings, tables and lookups\<close>

lemma str_lower_Post: "str_lower ''Post'' = ''post''"
  by code_simp

lemma str_lower_Tag: "str_lower ''Tag'' = ''tag''"
  by code_simp

lemma str_lower_GET: "str_lower ''GET'' = ''get''"
  by code_simp

lemma str_lower_POST: "str_lower ''POST'' = ''post''"
  by code_simp

lemma objects_get_one:
  "filter (slug_matches m s) tbl = [ob] \<Longrightarrow> objects_get m tbl s = Inr ob"
  by (simp add: objects_get_def)

lemma objects_get_none:
  "\<forall>ob \<in> set tbl. \<not> slug_matches m s ob \<Longrightarrow> objects_get m tbl s = Inl DoesNotExist"
  by (simp add: objects_get_def filter_empty_conv[THEN iffD2])

lemma slug_matches_Post:
  "slug_matches (Post url) s ob = (str_lower (slug (snd ob)) = str_lower s)"
  by (simp add: slug_matches_def Post_def iexact_def)

lemma slug_matches_Tag:
  "slug_matches (Tag url) s ob = (str_lower (tag_slug (snd ob)) = str_lower s)"
  by (simp add: slug_matches_def Tag_def iexact_def)

lemma fold_max_ge_init: "(a::nat) \<le> fold max xs a"
  by (induction xs arbitrary: a) (auto intro: order_trans[OF max.cobounded2])

lemma fold_max_ge_elem: "x \<in> set xs \<Longrightarrow> (x::nat) \<le> fold max xs a"
proof (induction xs arbitrary: a)
  case Nil
  then show ?case by simp
next
  case (Cons y ys)
  show ?case
  proof (cases "x = y")
    case True
    have "y \<le> max y a" by simp
    also have "\<dots> \<le> fold max ys (max y a)" by (rule fold_max_ge_init)
    finally show ?thesis using True by simp
  next
    case False
    with Cons.prems have "x \<in> set ys" by simp
    then show ?thesis using Cons.IH by simp
  qed
qed

lemma fresh_pk_new: "fresh_pk tbl \<notin> fst ` set tbl"
proof
  assume "fresh_pk tbl \<in> fst ` set tbl"
  then have "fresh_pk tbl \<in> set (map fst tbl)" by simp
  then have "fresh_pk tbl \<le> fold max (map fst tbl) 0" by (rule fold_max_ge_elem)
  then show False by (simp add: fresh_pk_def)
qed

lemma wf_insert_row: "wf_table tbl \<Longrightarrow> wf_table (snd (insert_row flds tbl))"
  using fresh_pk_new[of tbl] by (simp add: wf_table_def insert_row_def Let_def)

lemma map_fst_update_row: "map fst (snd (update_row pk flds tbl)) = map fst tbl"
  by (induction tbl) (auto simp: update_row_def)

lemma wf_update_row: "wf_table tbl \<Longrightarrow> wf_table (snd (update_row pk flds tbl))"
  by (simp add: wf_table_def map_fst_update_row)

lemma wf_delete_row: "wf_table tbl \<Longrightarrow> wf_table (delete_row ob tbl)"
  by (simp add: wf_table_def delete_row_def distinct_map_filter)

lemma delete_row_remove1:
  "wf_table tbl \<Longrightarrow> ob \<in> set tbl \<Longrightarrow> delete_row ob tbl = remove1 ob tbl"
proof (induction tbl)
  case Nil
  then show ?case by simp
next
  case (Cons r rs)
  have wf: "wf_table rs" and new: "fst r \<notin> fst ` set rs"
    using Cons.prems(1) by (simp_all add: wf_table_def)
  show ?case
  proof (cases "r = ob")
    case True
    have "\<forall>x\<in>set rs. fst x \<noteq> fst ob"
      using new True by (metis imageI)
    then have "filter (\<lambda>x. fst x \<noteq> fst ob) rs = rs"
      by (intro filter_True)
    then show ?thesis using True by (simp add: delete_row_def)
  next
    case False
    with Cons.prems(2) have mem: "ob \<in> set rs" by simp
    then have "fst r \<noteq> fst ob" using new by force
    then show ?thesis using Cons.IH[OF wf mem] False by (simp add: delete_row_def)
  qed
qed

lemma filter_single_mem:
  assumes "filter P xs = [x]"
  shows "x \<in> set xs"
proof -
  have "x \<in> set (filter P xs)" using assms by simp
  then show ?thesis by simp
qed

lemma gate_open:
  "is_authenticated request \<Longrightarrow> LoginRequiredMixin_dispatch r request h st = h st"
  by (simp add: LoginRequiredMixin_dispatch_def)

lemma gate_closed:
  "\<not> is_authenticated request \<Longrightarrow>
     LoginRequiredMixin_dispatch True request h st = (Inl PermissionDenied, st)"
  by (simp add: LoginRequiredMixin_dispatch_def handle_no_permission_def)

lemma dispatch_post:
  "str_lower (http_method request) = ''post'' \<Longrightarrow>
     View_dispatch request g (Some h) st = h st"
  by (simp add: View_dispatch_def)

lemma create_valid:
  "full_clean mf (POST request) None tbl = [] \<Longrightarrow>
   ObjectCreateMixin_post mf tpl request tbl =
     (Inr (Redirect (get_absolute_url (form_model mf)
        (fresh_pk tbl, cleaned mf (POST request) None))),
      tbl @ [(fresh_pk tbl, cleaned mf (POST request) None)])"
  by (simp add: ObjectCreateMixin_post_def new_form_def is_valid_def form_save_def
      insert_row_def Let_def)

lemma create_invalid:
  "full_clean mf (POST request) None tbl \<noteq> [] \<Longrightarrow>
   ObjectCreateMixin_post mf tpl request tbl =
     (Inr (Render tpl [(''form'', CForm \<lparr>data = Some (POST request), form_instance = None,
        errors = full_clean mf (POST request) None tbl\<rparr>)]), tbl)"
  by (simp add: ObjectCreateMixin_post_def new_form_def is_valid_def Let_def)

lemma update_valid:
  "objects_get m tbl s = Inr ob \<Longrightarrow> full_clean mf (POST request) (Some ob) tbl = [] \<Longrightarrow>
   ObjectUpdateMixin_post m mf tpl request s tbl =
     (Inr (Redirect (get_absolute_url (form_model mf)
        (fst ob, cleaned mf (POST request) (Some ob)))),
      map (\<lambda>r. if fst r = fst ob then (fst ob, cleaned mf (POST request) (Some ob)) else r) tbl)"
  by (simp add: ObjectUpdateMixin_post_def new_form_def is_valid_def form_save_def
      update_row_def Let_def)

lemma update_error:
  "objects_get m tbl s = Inl e \<Longrightarrow> ObjectUpdateMixin_post m mf tpl request s tbl = (Inl e, tbl)"
  by (simp add: ObjectUpdateMixin_post_def)

lemma delete_found:
  "objects_get m tbl s = Inr ob \<Longrightarrow>
   ObjectDeleteMixin_post m nm rv request s tbl = (Inr (Redirect (rv nm)), delete_row ob tbl)"
  by (simp add: ObjectDeleteMixin_post_def)

lemma delete_error:
  "objects_get m tbl s = Inl e \<Longrightarrow> ObjectDeleteMixin_post m nm rv request s tbl = (Inl e, tbl)"
  by (simp add: ObjectDeleteMixin_post_def)

lemma map_fst_overwrite:
  "map fst (map (\<lambda>r. if fst r = k then (k, v) else r) tbl) = map fst tbl"
  by (induction tbl) auto

lemma wf_distinct: "wf_table tbl \<Longrightarrow> distinct tbl"
  by (simp add: wf_table_def distinct_map)

lemma editor_simps:
  "is_authenticated (editor m qd)" "http_method (editor m qd) = m" "POST (editor m qd) = qd"
  by (simp_all add: editor_def)

lemma sample_forms_valid:
  "full_clean SamplePostForm new_fields inst ptbl = []"
  "full_clean SampleTagForm new_fields tinst ttbl = []"
  by (simp_all add: SamplePostForm_def SampleTagForm_def required_def field_def
      querydict_get_def new_fields_def)

lemma sample_forms_invalid:
  "full_clean SamplePostForm [] inst ptbl =
     [(''title'', ''This field is required.''), (''slug'', ''This field is required.'')]"
  "full_clean SampleTagForm [] tinst ttbl =
     [(''title'', ''This field is required.''), (''slug'', ''This field is required.'')]"
  by (simp_all add: SamplePostForm_def SampleTagForm_def required_def field_def
      querydict_get_def)

lemma sample_cleaned:
  "cleaned SamplePostForm new_fields None =
     \<lparr>title = ''Second'', body = ''More text'', slug = ''second'', date_pub = 0\<rparr>"
  "cleaned SamplePostForm new_fields (Some hello_post) =
     \<lparr>title = ''Second'', body = ''More text'', slug = ''second'', date_pub = 0\<rparr>"
  "cleaned SampleTagForm new_fields tinst = \<lparr>tag_name = ''Second'', tag_slug = ''second''\<rparr>"
  by (simp_all add: SamplePostForm_def SampleTagForm_def field_def querydict_get_def
      new_fields_def hello_post_def)

lemma sample_urls:
  "get_absolute_url (form_model SamplePostForm) ob = ''/blog/post/'' @ slug (snd ob) @ ''/''"
  "get_absolute_url (form_model SampleTagForm) tb = ''/blog/tag/'' @ tag_slug (snd tb) @ ''/''"
  by (simp_all add: SamplePostForm_def SampleTagForm_def Post_def Tag_def post_url_def
      tag_url_def)

lemma blog_simps:
  "posts blog = [hello_post]" "tags blog = [news_tag]" "fst hello_post = 1" "fst news_tag = 1"
  "fresh_pk [hello_post] = 2" "fresh_pk [news_tag] = 2"
  by (simp_all add: blog_def hello_post_def news_tag_def fresh_pk_def)

section \<open>Facts about searching and paging\<close>

lemma startswith_iff: "startswith s t \<longleftrightarrow> (\<exists>v. s = t @ v)"
  by (induction s t rule: startswith.induct) auto

lemma contains_iff: "contains s t \<longleftrightarrow> is_substring t s"
proof (induction s)
  case Nil
  then show ?case by (auto simp: is_substring_def)
next
  case (Cons d ds)
  have "is_substring t (d # ds) \<longleftrightarrow> (\<exists>v. d # ds = t @ v) \<or> is_substring t ds"
  proof
    assume "is_substring t (d # ds)"
    then obtain u v where uv: "d # ds = u @ t @ v" by (auto simp: is_substring_def)
    show "(\<exists>v. d # ds = t @ v) \<or> is_substring t ds"
    proof (cases u)
      case Nil
      then show ?thesis using uv by auto
    next
      case (Cons a u')
      then have "ds = u' @ t @ v" using uv by simp
      then show ?thesis by (auto simp: is_substring_def)
    qed
  next
    assume "(\<exists>v. d # ds = t @ v) \<or> is_substring t ds"
    then show "is_substring t (d # ds)"
    proof
      assume "\<exists>v. d # ds = t @ v"
      then obtain v where "d # ds = [] @ t @ v" by auto
      then show ?thesis unfolding is_substring_def by blast
    next
      assume "is_substring t ds"
      then obtain u v where "ds = u @ t @ v" by (auto simp: is_substring_def)
      then have "d # ds = (d # u) @ t @ v" by simp
      then show ?thesis unfolding is_substring_def by blast
    qed
  qed
  then show ?case using Cons.IH by (simp add: startswith_iff)
qed

lemma post_matches_iff:
  "post_matches q ob \<longleftrightarrow>
     is_substring (str_lower q) (str_lower (title (snd ob)))
     \<or> is_substring (str_lower q) (str_lower (body (snd ob)))"
  by (simp add: post_matches_def icontains_def contains_iff)

lemma num_pages_10:
  "per_page p = 10 \<Longrightarrow> num_pages p = (max 1 (length (object_list p)) + 9) div 10"
  by (simp add: num_pages_def paginator_count_def Let_def)

lemma num_pages_pos: "per_page p = 10 \<Longrightarrow> 1 \<le> num_pages p"
  by (simp add: num_pages_10)

lemma validate_in_range:
  "1 \<le> k \<Longrightarrow> k \<le> int (num_pages p) \<Longrightarrow> validate_number int_str p (PyInt k) = Inr k"
  by (simp add: validate_number_def py_int_def)

lemma py_slice_page:
  assumes "b \<le> length xs"
  shows "py_slice xs (int b)
           (if int b + 10 \<ge> int (length xs) then int (length xs) else int b + 10)
         = take 10 (drop b xs)"
proof (cases "int b + 10 \<ge> int (length xs)")
  case True
  then have "length xs - b \<le> 10" by linarith
  then show ?thesis using True assms
    by (simp add: py_slice_def py_index_def Let_def min_absorb1)
next
  case False
  then have "b + 10 \<le> length xs" by linarith
  then show ?thesis using False assms
    by (simp add: py_slice_def py_index_def Let_def min_absorb1 nat_add_distrib)
qed

lemma page_slice:
  assumes "per_page p = 10" and "1 \<le> k" and "k \<le> int (num_pages p)"
  shows "paginator_page int_str p (PyInt k) =
     Inr \<lparr>page_object_list = take 10 (drop (10 * nat (k - 1)) (object_list p)),
          number = k, paginator = p\<rparr>"
proof -
  define b where "b = 10 * nat (k - 1)"
  have e1: "(k - 1) * 10 = int b" using assms(2) by (simp add: b_def)
  have e2: "int (per_page p) = 10" using assms(1) by simp
  have e3: "paginator_count p = length (object_list p)" by (simp add: paginator_count_def)
  have le: "b \<le> length (object_list p)"
    using assms by (simp add: num_pages_10 b_def)
  have "paginator_page int_str p (PyInt k) =
     Inr \<lparr>page_object_list = py_slice (object_list p) ((k - 1) * int (per_page p))
            (if (k - 1) * int (per_page p) + int (per_page p) \<ge> int (paginator_count p)
             then int (paginator_count p)
             else (k - 1) * int (per_page p) + int (per_page p)),
          number = k, paginator = p\<rparr>"
    by (simp only: paginator_page_def validate_in_range[OF assms(2,3)] Let_def sum.case)
  then have "paginator_page int_str p (PyInt k) =
     Inr \<lparr>page_object_list = take 10 (drop b (object_list p)), number = k, paginator = p\<rparr>"
    unfolding e2 e1 e3 py_slice_page[OF le] .
  then show ?thesis
    unfolding b_def .
qed

lemma get_page_chosen:
  assumes "per_page p = 10"
  shows "get_page int_str p v =
     paginator_page int_str p (PyInt (case py_int int_str v of None \<Rightarrow> 1
        | Some n \<Rightarrow> if n < 1 \<or> n > int (num_pages p) then int (num_pages p) else n))"
proof (cases "py_int int_str v")
  case None
  then show ?thesis by (simp add: get_page_def validate_number_def)
next
  case (Some n)
  have pos: "1 \<le> int (num_pages p)" using num_pages_pos[OF assms] by simp
  show ?thesis
  proof (cases "n < 1 \<or> n > int (num_pages p)")
    case True
    then have "validate_number int_str p v = Inl EmptyPage"
      using Some pos by (auto simp: validate_number_def)
    then show ?thesis using Some True by (simp add: get_page_def)
  next
    case False
    then have "validate_number int_str p v = Inr n"
      using Some by (auto simp: validate_number_def)
    then show ?thesis using Some False by (simp add: get_page_def)
  qed
qed

lemma chosen_in_range:
  fixes v :: pyval and int_str :: "string \<Rightarrow> int option"
  assumes "per_page p = 10"
  defines "k \<equiv> (case py_int int_str v of None \<Rightarrow> 1
        | Some n \<Rightarrow> if n < 1 \<or> n > int (num_pages p) then int (num_pages p) else n)"
  shows "1 \<le> k \<and> k \<le> int (num_pages p)"
  using num_pages_pos[OF assms(1)] by (auto simp: k_def split: option.splits)

lemma posts_list_render:
  fixes request :: request and st :: store and int_str :: "string \<Rightarrow> int option"
  defines "pgn \<equiv> \<lparr>object_list = posts_queryset request st, per_page = 10\<rparr>"
  defines "k \<equiv> (case py_int int_str (page_number request) of None \<Rightarrow> 1
                  | Some n \<Rightarrow> if n < 1 \<or> n > int (num_pages pgn) then int (num_pages pgn)
                             else n)"
  shows "posts_list int_str request st =
     Inr (Render ''blog/index.html''
       [(''page_object'',
         CPage \<lparr>page_object_list = take 10 (drop (10 * nat (k - 1)) (posts_queryset request st)),
                number = k, paginator = pgn\<rparr>),
        (''is_paginated'', CBool (1 < k \<or> k < int (num_pages pgn))),
        (''next_url'', CStr (if k < int (num_pages pgn) then ''?page='' @ str_int (k + 1) else [])),
        (''prev_url'', CStr (if 1 < k then ''?page='' @ str_int (k - 1) else []))])"
proof -
  have pp: "per_page pgn = 10" by (simp add: pgn_def)
  have rng: "1 \<le> k \<and> k \<le> int (num_pages pgn)"
    unfolding k_def by (rule chosen_in_range[OF pp])
  have gp: "get_page int_str pgn (page_number request) =
      Inr \<lparr>page_object_list = take 10 (drop (10 * nat (k - 1)) (posts_queryset request st)),
           number = k, paginator = pgn\<rparr>"
    using page_slice[OF pp, where k = k and int_str = int_str] rng
    by (simp add: get_page_chosen[OF pp] k_def[symmetric]) (simp add: pgn_def)
  have nx: "k < int (num_pages pgn) \<Longrightarrow> validate_number int_str pgn (PyInt (k + 1)) = Inr (k + 1)"
    using rng by (intro validate_in_range) auto
  have pv: "1 < k \<Longrightarrow> validate_number int_str pgn (PyInt (k - 1)) = Inr (k - 1)"
    using rng by (intro validate_in_range) auto
  have "posts_list int_str request st =
      (case get_page int_str pgn (page_number request) of
           Inl e \<Rightarrow> Inl e
         | Inr pg \<Rightarrow>
             (let is_paginated = has_other_pages pg in
              case (if has_previous pg then page_url (previous_page_number int_str pg) else Inr [])
              of Inl e \<Rightarrow> Inl e
               | Inr prev_url \<Rightarrow>
                   (case (if has_next pg then page_url (next_page_number int_str pg) else Inr [])
                    of Inl e \<Rightarrow> Inl e
                     | Inr next_url \<Rightarrow>
                         Inr (Render ''blog/index.html''
                            [(''page_object'', CPage pg), (''is_paginated'', CBool is_paginated),
                             (''next_url'', CStr next_url), (''prev_url'', CStr prev_url)]))))"
    by (simp add: posts_list_def pgn_def Let_def)
  then show ?thesis
    by (simp add: gp has_other_pages_def has_previous_def has_next_def next_page_number_def
        previous_page_number_def page_url_def nx pv Let_def)
qed

lemma posts_list_shape:
  "\<exists>pg is_paginated next_url prev_url.
     posts_list int_str request st =
       Inr (Render ''blog/index.html''
          [(''page_object'', CPage pg), (''is_paginated'', CBool is_paginated),
           (''next_url'', CStr next_url), (''prev_url'', CStr prev_url)])
     \<and> paginator pg = \<lparr>object_list = posts_queryset request st, per_page = 10\<rparr>
     \<and> number pg = (case py_int int_str (page_number request) of None \<Rightarrow> 1
          | Some n \<Rightarrow>
              if n < 1 \<or> n > int (num_pages \<lparr>object_list = posts_queryset request st, per_page = 10\<rparr>)
              then int (num_pages \<lparr>object_list = posts_queryset request st, per_page = 10\<rparr>)
              else n)
     \<and> page_object_list pg =
         take 10 (drop (10 * nat (number pg - 1)) (posts_queryset request st))"
  by (simp add: posts_list_render)

lemma ascii_int_samples:
  "ascii_int ''1'' = Some 1" "ascii_int ''2'' = Some 2" "ascii_int ''3'' = Some 3"
  "ascii_int ''abc'' = None" "ascii_int ''99'' = Some 99" "ascii_int ''0'' = Some 0"
  by code_simp+

lemma str_int_123: "str_int 1 = ''1''" "str_int 2 = ''2''" "str_int 3 = ''3''"
  by code_simp+

lemma visitor_simps:
  "\<not> is_authenticated (visitor m qd)" "http_method (visitor m qd) = m" "GET (visitor m qd) = qd"
  by (simp_all add: visitor_def)

lemma hello_post_fields:
  "title (snd hello_post) = ''Hello World''" "body (snd hello_post) = ''First post''"
  by (simp_all add: hello_post_def)

lemma hello_world_search:
  "is_substring (str_lower ''WORLD'') (str_lower ''Hello World'')"
  "\<not> is_substring (str_lower ''zzz'') (str_lower ''Hello World'')"
  "\<not> is_substring (str_lower ''zzz'') (str_lower ''First post'')"
proof -
  have "contains (str_lower ''Hello World'') (str_lower ''WORLD'')"
    "\<not> contains (str_lower ''Hello World'') (str_lower ''zzz'')"
    "\<not> contains (str_lower ''First post'') (str_lower ''zzz'')"
    by code_simp+
  then show "is_substring (str_lower ''WORLD'') (str_lower ''Hello World'')"
    "\<not> is_substring (str_lower ''zzz'') (str_lower ''Hello World'')"
    "\<not> is_substring (str_lower ''zzz'') (str_lower ''First post'')"
    by (simp_all add: contains_iff)
qed

lemma blog25_length: "length (posts blog25) = 25"
  by (simp add: blog25_def)

lemma page_not_empty:
  assumes "per_page p = 10" and "1 \<le> k" and "k \<le> int (num_pages p)"
    and "object_list p \<noteq> []"
  shows "take 10 (drop (10 * nat (k - 1)) (object_list p)) \<noteq> []"
proof -
  define n where "n = length (object_list p)"
  define j where "j = nat (k - 1)"
  have pos: "0 < n" using assms(4) by (simp add: n_def)
  have "max 1 n = n" using pos by simp
  then have "num_pages p = (n + 9) div 10"
    using assms(1) by (simp add: num_pages_10 n_def)
  then have "k \<le> int ((n + 9) div 10)"
    using assms(3) by simp
  then have "Suc j \<le> (n + 9) div 10"
    using assms(2) by (simp add: j_def)
  then have "10 * j < n" by linarith
  then show ?thesis by (simp add: n_def j_def)
qed

section \<open>The detail operation\<close>

text \<open>
  C1. A GET request for a slug that, compared without regard to case, is the slug of exactly
  one stored Post (Tag) is answered with the detail page of exactly that Post (Tag); a slug
  that no stored Post (Tag) has is answered with NotFound. The store is left as it was.
\<close>

theorem detail_lookup:
  assumes "str_lower (http_method request) = ''get''"
  shows "([x \<leftarrow> posts st. str_lower (slug (snd x)) = str_lower s] = [p] \<longrightarrow>
           PostDetail (Post url) request s st =
             (Inr (Render ''blog/post_detail.html''
                [(''post'', CObj p), (''admin_object'', CObj p), (''detail'', CBool True)]), st))
       \<and> ((\<forall>x \<in> set (posts st). str_lower (slug (snd x)) \<noteq> str_lower s) \<longrightarrow>
           PostDetail (Post url) request s st = (Inl Http404, st))
       \<and> ([x \<leftarrow> tags st. str_lower (tag_slug (snd x)) = str_lower s] = [t] \<longrightarrow>
           TagDetail (Tag url') request s st =
             (Inr (Render ''blog/tag_detail.html''
                [(''tag'', CObj t), (''admin_object'', CObj t), (''detail'', CBool True)]), st))
       \<and> ((\<forall>x \<in> set (tags st). str_lower (tag_slug (snd x)) \<noteq> str_lower s) \<longrightarrow>
           TagDetail (Tag url') request s st = (Inl Http404, st))"
proof (intro conjI impI)
  assume h: "[x \<leftarrow> posts st. str_lower (slug (snd x)) = str_lower s] = [p]"
  then have "objects_get (Post url) (posts st) s = Inr p"
    by (intro objects_get_one) (simp add: slug_matches_Post[abs_def])
  then show "PostDetail (Post url) request s st =
             (Inr (Render ''blog/post_detail.html''
                [(''post'', CObj p), (''admin_object'', CObj p), (''detail'', CBool True)]), st)"
    using assms
    by (simp add: PostDetail_def View_dispatch_def ObjectDetailMixin_get_def
        get_object_or_404_def on_posts_def Post_def str_lower_Post)
next
  assume "\<forall>x \<in> set (posts st). str_lower (slug (snd x)) \<noteq> str_lower s"
  then have "objects_get (Post url) (posts st) s = Inl DoesNotExist"
    by (intro objects_get_none) (simp add: slug_matches_Post)
  then show "PostDetail (Post url) request s st = (Inl Http404, st)"
    using assms
    by (simp add: PostDetail_def View_dispatch_def ObjectDetailMixin_get_def
        get_object_or_404_def on_posts_def)
next
  assume h: "[x \<leftarrow> tags st. str_lower (tag_slug (snd x)) = str_lower s] = [t]"
  then have "objects_get (Tag url') (tags st) s = Inr t"
    by (intro objects_get_one) (simp add: slug_matches_Tag[abs_def])
  then show "TagDetail (Tag url') request s st =
             (Inr (Render ''blog/tag_detail.html''
                [(''tag'', CObj t), (''admin_object'', CObj t), (''detail'', CBool True)]), st)"
    using assms
    by (simp add: TagDetail_def View_dispatch_def ObjectDetailMixin_get_def
        get_object_or_404_def on_tags_def Tag_def str_lower_Tag)
next
  assume "\<forall>x \<in> set (tags st). str_lower (tag_slug (snd x)) \<noteq> str_lower s"
  then have "objects_get (Tag url') (tags st) s = Inl DoesNotExist"
    by (intro objects_get_none) (simp add: slug_matches_Tag)
  then show "TagDetail (Tag url') request s st = (Inl Http404, st)"
    using assms
    by (simp add: TagDetail_def View_dispatch_def ObjectDetailMixin_get_def
        get_object_or_404_def on_tags_def)
qed

theorem detail_lookup_witness:
  "PostDetail (Post post_url) (visitor ''GET'' []) ''hELLO'' blog =
     (Inr (Render ''blog/post_detail.html''
        [(''post'', CObj hello_post), (''admin_object'', CObj hello_post),
         (''detail'', CBool True)]), blog)
   \<and> TagDetail (Tag tag_url) (visitor ''GET'' []) ''NEWS'' blog =
     (Inr (Render ''blog/tag_detail.html''
        [(''tag'', CObj news_tag), (''admin_object'', CObj news_tag),
         (''detail'', CBool True)]), blog)
   \<and> PostDetail (Post post_url) (visitor ''GET'' []) ''bye'' blog = (Inl Http404, blog)
   \<and> TagDetail (Tag tag_url) (visitor ''GET'' []) ''bye'' blog = (Inl Http404, blog)"
proof -
  have m: "str_lower (http_method (visitor ''GET'' [])) = ''get''"
    by (simp add: visitor_def str_lower_GET)
  have l: "str_lower ''Hello'' = ''hello''" "str_lower ''hELLO'' = ''hello''"
    "str_lower ''news'' = ''news''" "str_lower ''NEWS'' = ''news''"
    "str_lower ''bye'' = ''bye''"
    by code_simp+
  show ?thesis
    using detail_lookup [OF m, where st = blog and s = "''hELLO''" and p = hello_post
        and url = post_url and url' = tag_url]
      detail_lookup [OF m, where st = blog and s = "''NEWS''" and t = news_tag
        and url = post_url and url' = tag_url]
      detail_lookup [OF m, where st = blog and s = "''bye''"
        and url = post_url and url' = tag_url]
    by (simp add: blog_def hello_post_def news_tag_def l)
qed

section \<open>Update and delete of a slug that nothing has\<close>

text \<open>
  C2. The claim is that a POST to the update or the delete view with a slug that no stored
  entity has ends in NotFound. The two handlers load the object with the manager's \<open>get\<close>,
  which raises \<open>DoesNotExist\<close>, and nothing turns that into the 404 that the detail
  handler produces through \<open>get_object_or_404\<close>: on the small blog a logged-in POST for
  the slug \<open>missing\<close> ends in \<open>DoesNotExist\<close> for all four views, with the store as it
  was, while the detail view answers the same slug with \<open>Http404\<close>.
\<close>

theorem update_delete_missing_slug:
  "PostUpdate (Post post_url) SamplePostForm (editor ''POST'' new_fields) ''missing'' blog =
     (Inl DoesNotExist, blog)
   \<and> PostDelete (Post post_url) routes (editor ''POST'' []) ''missing'' blog =
     (Inl DoesNotExist, blog)
   \<and> TagUpdate (Tag tag_url) SampleTagForm (editor ''POST'' new_fields) ''missing'' blog =
     (Inl DoesNotExist, blog)
   \<and> TagDelete (Tag tag_url) routes (editor ''POST'' []) ''missing'' blog =
     (Inl DoesNotExist, blog)
   \<and> PostDetail (Post post_url) (editor ''GET'' []) ''missing'' blog = (Inl Http404, blog)"
proof -
  have l: "str_lower ''Hello'' = ''hello''" "str_lower ''news'' = ''news''"
    "str_lower ''missing'' = ''missing''"
    by code_simp+
  have p: "objects_get (Post post_url) (posts blog) ''missing'' = Inl DoesNotExist"
    by (intro objects_get_none) (simp add: slug_matches_Post blog_def hello_post_def l)
  have t: "objects_get (Tag tag_url) (tags blog) ''missing'' = Inl DoesNotExist"
    by (intro objects_get_none) (simp add: slug_matches_Tag blog_def news_tag_def l)
  show ?thesis
    by (simp add: PostUpdate_def PostDelete_def TagUpdate_def TagDelete_def PostDetail_def
        gate_open dispatch_post editor_simps str_lower_POST str_lower_GET View_dispatch_def
        on_posts_def on_tags_def update_error[OF p] update_error[OF t] delete_error[OF p]
        delete_error[OF t] ObjectDetailMixin_get_def get_object_or_404_def p)
qed

section \<open>The create operation\<close>

text \<open>
  C3. A POST of a logged-in user to a create view: when the form finds no error in the
  submitted fields, the table gains exactly one row, the submitted entity under a key that
  no row had, and the answer redirects to that entity's own address; when the form finds
  errors, the store is unchanged and the form template is rendered again with the bound
  form, which carries the submitted values and the non-empty list of field errors.
\<close>

theorem create_submission:
  assumes "is_authenticated request" and "str_lower (http_method request) = ''post''"
  shows "(full_clean PostForm (POST request) None (posts st) = [] \<longrightarrow>
            PostCreate PostForm request st =
              (Inr (Redirect (get_absolute_url (form_model PostForm)
                 (fresh_pk (posts st), cleaned PostForm (POST request) None))),
               st\<lparr>posts := posts st @ [(fresh_pk (posts st), cleaned PostForm (POST request) None)]\<rparr>)
            \<and> fresh_pk (posts st) \<notin> fst ` set (posts st)
            \<and> length (posts (snd (PostCreate PostForm request st))) = Suc (length (posts st)))
       \<and> (full_clean PostForm (POST request) None (posts st) \<noteq> [] \<longrightarrow>
            PostCreate PostForm request st =
              (Inr (Render ''blog/post_create_form.html''
                 [(''form'', CForm \<lparr>data = Some (POST request), form_instance = None,
                    errors = full_clean PostForm (POST request) None (posts st)\<rparr>)]), st))
       \<and> (full_clean TagForm (POST request) None (tags st) = [] \<longrightarrow>
            TagCreate TagForm request st =
              (Inr (Redirect (get_absolute_url (form_model TagForm)
                 (fresh_pk (tags st), cleaned TagForm (POST request) None))),
               st\<lparr>tags := tags st @ [(fresh_pk (tags st), cleaned TagForm (POST request) None)]\<rparr>)
            \<and> fresh_pk (tags st) \<notin> fst ` set (tags st)
            \<and> length (tags (snd (TagCreate TagForm request st))) = Suc (length (tags st)))
       \<and> (full_clean TagForm (POST request) None (tags st) \<noteq> [] \<longrightarrow>
            TagCreate TagForm request st =
              (Inr (Render ''blog/tag_create.html''
                 [(''form'', CForm \<lparr>data = Some (POST request), form_instance = None,
                    errors = full_clean TagForm (POST request) None (tags st)\<rparr>)]), st))"
proof -
  have p: "PostCreate PostForm request st =
      on_posts (ObjectCreateMixin_post PostForm ''blog/post_create_form.html'' request) st"
    using assms by (simp add: PostCreate_def gate_open dispatch_post)
  have t: "TagCreate TagForm request st =
      on_tags (ObjectCreateMixin_post TagForm ''blog/tag_create.html'' request) st"
    using assms by (simp add: TagCreate_def gate_open dispatch_post)
  show ?thesis
    unfolding p t
    by (simp add: on_posts_def on_tags_def create_valid create_invalid fresh_pk_new)
qed

theorem create_submission_witness:
  "PostCreate SamplePostForm (editor ''POST'' new_fields) blog =
     (Inr (Redirect ''/blog/post/second/''),
      blog\<lparr>posts := [hello_post,
        (2, \<lparr>title = ''Second'', body = ''More text'', slug = ''second'', date_pub = 0\<rparr>)]\<rparr>)
   \<and> TagCreate SampleTagForm (editor ''POST'' new_fields) blog =
     (Inr (Redirect ''/blog/tag/second/''),
      blog\<lparr>tags := [news_tag, (2, \<lparr>tag_name = ''Second'', tag_slug = ''second''\<rparr>)]\<rparr>)
   \<and> PostCreate SamplePostForm (editor ''POST'' []) blog =
     (Inr (Render ''blog/post_create_form.html''
        [(''form'', CForm \<lparr>data = Some [], form_instance = None,
           errors = [(''title'', ''This field is required.''),
                     (''slug'', ''This field is required.'')]\<rparr>)]), blog)
   \<and> TagCreate SampleTagForm (editor ''POST'' []) blog =
     (Inr (Render ''blog/tag_create.html''
        [(''form'', CForm \<lparr>data = Some [], form_instance = None,
           errors = [(''title'', ''This field is required.''),
                     (''slug'', ''This field is required.'')]\<rparr>)]), blog)"
proof -
  have a: "is_authenticated (editor ''POST'' qd)" for qd
    by (simp add: editor_simps)
  have m: "str_lower (http_method (editor ''POST'' qd)) = ''post''" for qd
    by (simp add: editor_simps str_lower_POST)
  show ?thesis
    using create_submission [OF a m, where qd1 = new_fields and st = blog
        and PostForm = SamplePostForm and TagForm = SampleTagForm]
      create_submission [OF a m, where qd1 = "[]" and st = blog
        and PostForm = SamplePostForm and TagForm = SampleTagForm]
    by (simp add: editor_simps sample_forms_valid sample_forms_invalid sample_cleaned
        sample_urls blog_simps)
qed

section \<open>The update operation\<close>

text \<open>
  C4. A POST of a logged-in user to an update view, for a slug that exactly one stored
  entity has and with fields the form accepts: the row of that entity is overwritten where
  it stands, keeping its key and taking the submitted fields; every other row, the sequence
  of keys and the number of rows stay as they were; the answer redirects to the address of
  the updated entity.
\<close>

theorem update_submission:
  assumes "is_authenticated request" and "str_lower (http_method request) = ''post''"
  shows "([x \<leftarrow> posts st. str_lower (slug (snd x)) = str_lower s] = [p]
            \<and> full_clean PostForm (POST request) (Some p) (posts st) = [] \<longrightarrow>
          PostUpdate (Post url) PostForm request s st =
            (Inr (Redirect (get_absolute_url (form_model PostForm)
               (fst p, cleaned PostForm (POST request) (Some p)))),
             st\<lparr>posts := map (\<lambda>r. if fst r = fst p
                                   then (fst p, cleaned PostForm (POST request) (Some p)) else r)
                              (posts st)\<rparr>)
          \<and> map fst (posts (snd (PostUpdate (Post url) PostForm request s st))) = map fst (posts st)
          \<and> length (posts (snd (PostUpdate (Post url) PostForm request s st))) = length (posts st))
       \<and> ([x \<leftarrow> tags st. str_lower (tag_slug (snd x)) = str_lower s] = [t]
            \<and> full_clean TagForm (POST request) (Some t) (tags st) = [] \<longrightarrow>
          TagUpdate (Tag url') TagForm request s st =
            (Inr (Redirect (get_absolute_url (form_model TagForm)
               (fst t, cleaned TagForm (POST request) (Some t)))),
             st\<lparr>tags := map (\<lambda>r. if fst r = fst t
                                  then (fst t, cleaned TagForm (POST request) (Some t)) else r)
                             (tags st)\<rparr>)
          \<and> map fst (tags (snd (TagUpdate (Tag url') TagForm request s st))) = map fst (tags st)
          \<and> length (tags (snd (TagUpdate (Tag url') TagForm request s st))) = length (tags st))"
proof -
  have pu: "PostUpdate (Post url) PostForm request s st =
      on_posts (ObjectUpdateMixin_post (Post url) PostForm ''blog/post_update_form.html''
        request s) st"
    using assms by (simp add: PostUpdate_def gate_open dispatch_post)
  have tu: "TagUpdate (Tag url') TagForm request s st =
      on_tags (ObjectUpdateMixin_post (Tag url') TagForm ''blog/tag_update_form.html''
        request s) st"
    using assms by (simp add: TagUpdate_def gate_open dispatch_post)
  have pg: "objects_get (Post url) (posts st) s = Inr p"
    if "[x \<leftarrow> posts st. str_lower (slug (snd x)) = str_lower s] = [p]"
    using that by (intro objects_get_one) (simp add: slug_matches_Post[abs_def])
  have tg: "objects_get (Tag url') (tags st) s = Inr t"
    if "[x \<leftarrow> tags st. str_lower (tag_slug (snd x)) = str_lower s] = [t]"
    using that by (intro objects_get_one) (simp add: slug_matches_Tag[abs_def])
  show ?thesis
    unfolding pu tu
    by (auto simp: on_posts_def on_tags_def update_valid[OF pg] update_valid[OF tg]
        map_fst_overwrite)
qed

theorem update_submission_witness:
  "PostUpdate (Post post_url) SamplePostForm (editor ''POST'' new_fields) ''HELLO'' blog =
     (Inr (Redirect ''/blog/post/second/''),
      blog\<lparr>posts :=
        [(1, \<lparr>title = ''Second'', body = ''More text'', slug = ''second'', date_pub = 0\<rparr>)]\<rparr>)
   \<and> TagUpdate (Tag tag_url) SampleTagForm (editor ''POST'' new_fields) ''News'' blog =
     (Inr (Redirect ''/blog/tag/second/''),
      blog\<lparr>tags := [(1, \<lparr>tag_name = ''Second'', tag_slug = ''second''\<rparr>)]\<rparr>)"
proof -
  have a: "is_authenticated (editor ''POST'' new_fields)"
    by (simp add: editor_simps)
  have m: "str_lower (http_method (editor ''POST'' new_fields)) = ''post''"
    by (simp add: editor_simps str_lower_POST)
  have l: "str_lower ''Hello'' = ''hello''" "str_lower ''HELLO'' = ''hello''"
    by code_simp+
  have n: "str_lower ''news'' = ''news''" "str_lower ''News'' = ''news''"
    by code_simp+
  have p: "[x \<leftarrow> posts blog. str_lower (slug (snd x)) = str_lower ''HELLO''] = [hello_post]"
    by (simp add: blog_def hello_post_def l)
  have t: "[x \<leftarrow> tags blog. str_lower (tag_slug (snd x)) = str_lower ''News''] = [news_tag]"
    by (simp add: blog_def news_tag_def n)
  show ?thesis
    using update_submission [OF a m, where st = blog and s = "''HELLO''" and p = hello_post
        and PostForm = SamplePostForm and url = post_url]
      update_submission [OF a m, where st = blog and s = "''News''" and t = news_tag
        and TagForm = SampleTagForm and url' = tag_url]
      p t
    by (simp add: editor_simps sample_forms_valid sample_cleaned sample_urls blog_simps)
qed

section \<open>The delete operation\<close>

text \<open>
  C5. A POST of a logged-in user to a delete view, for a slug that exactly one stored entity
  has, in a store whose keys identify its rows (which inserting, updating and deleting rows
  preserve): exactly that entity leaves the table, which has one row less afterwards, the
  other table is untouched, and the answer redirects to the list page of the entity kind.
\<close>

theorem delete_submission:
  assumes "is_authenticated request" and "str_lower (http_method request) = ''post''"
    and "wf_table (posts st)" and "wf_table (tags st)"
  shows "([x \<leftarrow> posts st. str_lower (slug (snd x)) = str_lower s] = [p] \<longrightarrow>
          PostDelete (Post url) reverse request s st =
            (Inr (Redirect (reverse ''posts_list_url'')), st\<lparr>posts := remove1 p (posts st)\<rparr>)
          \<and> p \<in> set (posts st) \<and> p \<notin> set (remove1 p (posts st))
          \<and> Suc (length (remove1 p (posts st))) = length (posts st))
       \<and> ([x \<leftarrow> tags st. str_lower (tag_slug (snd x)) = str_lower s] = [t] \<longrightarrow>
          TagDelete (Tag url') reverse request s st =
            (Inr (Redirect (reverse ''tags_list_url'')), st\<lparr>tags := remove1 t (tags st)\<rparr>)
          \<and> t \<in> set (tags st) \<and> t \<notin> set (remove1 t (tags st))
          \<and> Suc (length (remove1 t (tags st))) = length (tags st))"
proof (intro conjI impI)
  assume h: "[x \<leftarrow> posts st. str_lower (slug (snd x)) = str_lower s] = [p]"
  then have g: "objects_get (Post url) (posts st) s = Inr p"
    by (intro objects_get_one) (simp add: slug_matches_Post[abs_def])
  show mem: "p \<in> set (posts st)" using h by (rule filter_single_mem)
  show "PostDelete (Post url) reverse request s st =
            (Inr (Redirect (reverse ''posts_list_url'')), st\<lparr>posts := remove1 p (posts st)\<rparr>)"
    using assms(1,2)
    by (simp add: PostDelete_def gate_open dispatch_post on_posts_def delete_found[OF g]
        delete_row_remove1[OF assms(3) mem])
  show "p \<notin> set (remove1 p (posts st))"
    using wf_distinct[OF assms(3)] by simp
  show "Suc (length (remove1 p (posts st))) = length (posts st)"
    using mem by (simp add: length_remove1) (cases "posts st"; simp)
next
  assume h: "[x \<leftarrow> tags st. str_lower (tag_slug (snd x)) = str_lower s] = [t]"
  then have g: "objects_get (Tag url') (tags st) s = Inr t"
    by (intro objects_get_one) (simp add: slug_matches_Tag[abs_def])
  show mem: "t \<in> set (tags st)" using h by (rule filter_single_mem)
  show "TagDelete (Tag url') reverse request s st =
            (Inr (Redirect (reverse ''tags_list_url'')), st\<lparr>tags := remove1 t (tags st)\<rparr>)"
    using assms(1,2)
    by (simp add: TagDelete_def gate_open dispatch_post on_tags_def delete_found[OF g]
        delete_row_remove1[OF assms(4) mem])
  show "t \<notin> set (remove1 t (tags st))"
    using wf_distinct[OF assms(4)] by simp
  show "Suc (length (remove1 t (tags st))) = length (tags st)"
    using mem by (simp add: length_remove1) (cases "tags st"; simp)
qed

theorem delete_submission_witness:
  "PostDelete (Post post_url) routes (editor ''POST'' []) ''HELLO'' blog =
     (Inr (Redirect ''/blog/''), blog\<lparr>posts := []\<rparr>)
   \<and> TagDelete (Tag tag_url) routes (editor ''POST'' []) ''News'' blog =
     (Inr (Redirect ''/blog/tags/''), blog\<lparr>tags := []\<rparr>)"
proof -
  have a: "is_authenticated (editor ''POST'' [])"
    by (simp add: editor_simps)
  have m: "str_lower (http_method (editor ''POST'' [])) = ''post''"
    by (simp add: editor_simps str_lower_POST)
  have w: "wf_table (posts blog)" "wf_table (tags blog)"
    by (simp_all add: wf_table_def blog_def)
  have l: "str_lower ''Hello'' = ''hello''" "str_lower ''HELLO'' = ''hello''"
    by code_simp+
  have n: "str_lower ''news'' = ''news''" "str_lower ''News'' = ''news''"
    by code_simp+
  have p: "[x \<leftarrow> posts blog. str_lower (slug (snd x)) = str_lower ''HELLO''] = [hello_post]"
    by (simp add: blog_def hello_post_def l)
  have t: "[x \<leftarrow> tags blog. str_lower (tag_slug (snd x)) = str_lower ''News''] = [news_tag]"
    by (simp add: blog_def news_tag_def n)
  show ?thesis
    using delete_submission [OF a m w, where s = "''HELLO''" and p = hello_post
        and url = post_url and reverse = routes]
      delete_submission [OF a m w, where s = "''News''" and t = news_tag
        and url' = tag_url and reverse = routes]
      p t
    by (simp add: blog_simps routes_def)
qed

section \<open>The access gate\<close>

text \<open>
  C8. A request without an authenticated session to any of the create, update and delete
  views of Post and Tag, whatever its method, ends in \<open>PermissionDenied\<close> (Forbidden) with
  the store unchanged; the gate answers so for every handler behind it, that is, before
  and without running the operation.
\<close>

theorem unauthenticated_rejected:
  assumes "\<not> is_authenticated request"
  shows "PostCreate PostForm request st = (Inl PermissionDenied, st)
       \<and> PostUpdate post_model PostForm request s st = (Inl PermissionDenied, st)
       \<and> PostDelete post_model reverse request s st = (Inl PermissionDenied, st)
       \<and> TagCreate TagForm request st = (Inl PermissionDenied, st)
       \<and> TagUpdate tag_model TagForm request s st = (Inl PermissionDenied, st)
       \<and> TagDelete tag_model reverse request s st = (Inl PermissionDenied, st)
       \<and> LoginRequiredMixin_dispatch True request handler st = (Inl PermissionDenied, st)"
  using assms
  by (simp add: PostCreate_def PostUpdate_def PostDelete_def TagCreate_def TagUpdate_def
      TagDelete_def gate_closed)

theorem unauthenticated_rejected_witness:
  "PostCreate SamplePostForm (visitor ''POST'' []) blog = (Inl PermissionDenied, blog)
   \<and> PostUpdate (Post post_url) SamplePostForm (visitor ''POST'' []) ''hello'' blog =
       (Inl PermissionDenied, blog)
   \<and> PostDelete (Post post_url) routes (visitor ''POST'' []) ''hello'' blog =
       (Inl PermissionDenied, blog)
   \<and> TagCreate SampleTagForm (visitor ''POST'' []) blog = (Inl PermissionDenied, blog)
   \<and> TagUpdate (Tag tag_url) SampleTagForm (visitor ''POST'' []) ''news'' blog =
       (Inl PermissionDenied, blog)
   \<and> TagDelete (Tag tag_url) routes (visitor ''POST'' []) ''news'' blog =
       (Inl PermissionDenied, blog)"
proof -
  have a: "\<not> is_authenticated (visitor ''POST'' [])"
    by (simp add: visitor_def)
  show ?thesis
    using unauthenticated_rejected [OF a, where st = blog and PostForm = SamplePostForm
        and TagForm = SampleTagForm and post_model = "Post post_url"
        and tag_model = "Tag tag_url" and reverse = routes and s = "''hello''"
        and handler = "\<lambda>st. (Inr (Redirect [] :: post response), st)"]
      unauthenticated_rejected [OF a, where st = blog and PostForm = SamplePostForm
        and TagForm = SampleTagForm and post_model = "Post post_url"
        and tag_model = "Tag tag_url" and reverse = routes and s = "''news''"
        and handler = "\<lambda>st. (Inr (Redirect [] :: post response), st)"]
    by simp
qed

section \<open>Searching the posts\<close>

text \<open>
  C6. With a non-empty search term, the result set that the list view paginates is exactly
  the stored Posts whose title or whose body contains the term as a substring, compared
  without regard to case (either field suffices), in the store's order; the page shown
  is the slice of ten of that result set at the chosen page number; when no Post
  contains the term in either field the result set, and with it the page, is empty.
\<close>

theorem search_results:
  assumes "querydict_get (GET request) ''search'' = Some q" and "q \<noteq> []"
  shows "\<exists>pg is_paginated next_url prev_url.
     posts_list int_str request st =
       Inr (Render ''blog/index.html''
          [(''page_object'', CPage pg), (''is_paginated'', CBool is_paginated),
           (''next_url'', CStr next_url), (''prev_url'', CStr prev_url)])
     \<and> object_list (paginator pg) =
         [ob \<leftarrow> posts st. is_substring (str_lower q) (str_lower (title (snd ob)))
                          \<or> is_substring (str_lower q) (str_lower (body (snd ob)))]
     \<and> set (object_list (paginator pg)) =
         {ob \<in> set (posts st). is_substring (str_lower q) (str_lower (title (snd ob)))
                          \<or> is_substring (str_lower q) (str_lower (body (snd ob)))}
     \<and> page_object_list pg =
         take 10 (drop (10 * nat (number pg - 1)) (object_list (paginator pg)))
     \<and> ((\<forall>ob \<in> set (posts st). \<not> is_substring (str_lower q) (str_lower (title (snd ob)))
                          \<and> \<not> is_substring (str_lower q) (str_lower (body (snd ob))))
          \<longrightarrow> object_list (paginator pg) = [] \<and> page_object_list pg = [])"
proof -
  have sq: "search_query request = q" using assms(1) by (simp add: search_query_def)
  have qs: "posts_queryset request st =
      [ob \<leftarrow> posts st. is_substring (str_lower q) (str_lower (title (snd ob)))
                          \<or> is_substring (str_lower q) (str_lower (body (snd ob)))]"
    using assms(2) by (simp add: posts_queryset_def sq post_matches_iff[abs_def])
  obtain pg ip nx pv where
    r: "posts_list int_str request st =
       Inr (Render ''blog/index.html''
          [(''page_object'', CPage pg), (''is_paginated'', CBool ip),
           (''next_url'', CStr nx), (''prev_url'', CStr pv)])"
    and p: "paginator pg = \<lparr>object_list = posts_queryset request st, per_page = 10\<rparr>"
    and s: "page_object_list pg =
         take 10 (drop (10 * nat (number pg - 1)) (posts_queryset request st))"
    using posts_list_shape[of int_str request st] by blast
  have o: "object_list (paginator pg) = posts_queryset request st" by (simp add: p)
  show ?thesis
    apply (rule exI[of _ pg], rule exI[of _ ip], rule exI[of _ nx], rule exI[of _ pv])
    apply (simp only: r o s)
    apply (simp only: qs)
    apply (auto simp: filter_empty_conv)
    done
qed

theorem search_results_witness:
  "(\<exists>pg is_paginated next_url prev_url.
      posts_list ascii_int (visitor ''GET'' [(''search'', ''WORLD'')]) blog =
        Inr (Render ''blog/index.html''
          [(''page_object'', CPage pg), (''is_paginated'', CBool is_paginated),
           (''next_url'', CStr next_url), (''prev_url'', CStr prev_url)])
      \<and> object_list (paginator pg) = [hello_post])
   \<and> (\<exists>pg is_paginated next_url prev_url.
      posts_list ascii_int (visitor ''GET'' [(''search'', ''zzz'')]) blog =
        Inr (Render ''blog/index.html''
          [(''page_object'', CPage pg), (''is_paginated'', CBool is_paginated),
           (''next_url'', CStr next_url), (''prev_url'', CStr prev_url)])
      \<and> object_list (paginator pg) = [] \<and> page_object_list pg = [])"
proof -
  have w: "querydict_get (GET (visitor ''GET'' [(''search'', ''WORLD'')])) ''search''
             = Some ''WORLD''"
    and z: "querydict_get (GET (visitor ''GET'' [(''search'', ''zzz'')])) ''search''
             = Some ''zzz''"
    by (simp_all add: visitor_simps querydict_get_def)
  have ne: "''WORLD'' \<noteq> []" "''zzz'' \<noteq> []"
    by simp_all
  show ?thesis
    using search_results [OF w ne(1), where st = blog and int_str = ascii_int]
      search_results [OF z ne(2), where st = blog and int_str = ascii_int]
    by (simp add: blog_simps hello_post_fields hello_world_search) blast
qed

section \<open>Pages of ten\<close>

text \<open>
  C7. Listing without a search term a store of 25 Posts gives 3 pages of at most ten:
  page 1 (asked for by a page parameter that reads as 1, or by none) and page 2 carry a
  next-page link, page 3 carries none, and page 1 carries no previous-page link.
\<close>

theorem pagination_25:
  assumes "length (posts st) = 25" and "search_query request = []"
  shows "num_pages \<lparr>object_list = posts_queryset request st, per_page = 10\<rparr> = 3
     \<and> (querydict_get (GET request) ''page'' = None
          \<or> (\<exists>s. querydict_get (GET request) ''page'' = Some s \<and> int_str s = Some 1) \<longrightarrow>
        posts_list int_str request st =
          Inr (Render ''blog/index.html''
            [(''page_object'', CPage \<lparr>page_object_list = take 10 (posts st), number = 1,
                paginator = \<lparr>object_list = posts st, per_page = 10\<rparr>\<rparr>),
             (''is_paginated'', CBool True),
             (''next_url'', CStr ''?page=2''), (''prev_url'', CStr [])]))
     \<and> ((\<exists>s. querydict_get (GET request) ''page'' = Some s \<and> int_str s = Some 2) \<longrightarrow>
        posts_list int_str request st =
          Inr (Render ''blog/index.html''
            [(''page_object'', CPage \<lparr>page_object_list = take 10 (drop 10 (posts st)), number = 2,
                paginator = \<lparr>object_list = posts st, per_page = 10\<rparr>\<rparr>),
             (''is_paginated'', CBool True),
             (''next_url'', CStr ''?page=3''), (''prev_url'', CStr ''?page=1'')]))
     \<and> ((\<exists>s. querydict_get (GET request) ''page'' = Some s \<and> int_str s = Some 3) \<longrightarrow>
        posts_list int_str request st =
          Inr (Render ''blog/index.html''
            [(''page_object'', CPage \<lparr>page_object_list = drop 20 (posts st), number = 3,
                paginator = \<lparr>object_list = posts st, per_page = 10\<rparr>\<rparr>),
             (''is_paginated'', CBool True),
             (''next_url'', CStr []), (''prev_url'', CStr ''?page=2'')]))"
proof -
  have qs: "posts_queryset request st = posts st"
    using assms(2) by (simp add: posts_queryset_def)
  have np: "num_pages \<lparr>object_list = posts st, per_page = 10\<rparr> = 3"
    using assms(1) by (simp add: num_pages_10)
  have npi: "int (num_pages \<lparr>object_list = posts st, per_page = 10\<rparr>) = 3"
    by (simp add: np)
  have r: "posts_list int_str request st =
     Inr (Render ''blog/index.html''
       [(''page_object'',
         CPage \<lparr>page_object_list = take 10 (drop (10 * nat (k - 1)) (posts st)),
                number = k, paginator = \<lparr>object_list = posts st, per_page = 10\<rparr>\<rparr>),
        (''is_paginated'', CBool (1 < k \<or> k < 3)),
        (''next_url'', CStr (if k < 3 then ''?page='' @ str_int (k + 1) else [])),
        (''prev_url'', CStr (if 1 < k then ''?page='' @ str_int (k - 1) else []))])"
    if "k = (case py_int int_str (page_number request) of None \<Rightarrow> 1
               | Some n \<Rightarrow> if n < 1 \<or> n > 3 then 3 else n)" for k
    unfolding that
    using posts_list_render[where request = request and st = st and int_str = int_str,
        unfolded qs npi]
    by simp
  have p0: "querydict_get (GET request) ''page'' = None \<Longrightarrow>
      (case py_int int_str (page_number request) of None \<Rightarrow> 1
               | Some n \<Rightarrow> if n < 1 \<or> n > 3 then 3 else n) = 1"
    by (simp add: page_number_def py_int_def)
  have pk: "querydict_get (GET request) ''page'' = Some s \<Longrightarrow> int_str s = Some k \<Longrightarrow>
      1 \<le> k \<Longrightarrow> k \<le> 3 \<Longrightarrow>
      (case py_int int_str (page_number request) of None \<Rightarrow> 1
               | Some n \<Rightarrow> if n < 1 \<or> n > 3 then 3 else n) = k" for s k
    by (simp add: page_number_def py_int_def)
  have t3: "take 10 (drop 20 (posts st)) = drop 20 (posts st)"
    using assms(1) by simp
  show ?thesis
  proof (intro conjI impI)
    show "num_pages \<lparr>object_list = posts_queryset request st, per_page = 10\<rparr> = 3"
      by (simp add: qs np)
  next
    assume "querydict_get (GET request) ''page'' = None
          \<or> (\<exists>s. querydict_get (GET request) ''page'' = Some s \<and> int_str s = Some 1)"
    then have "(case py_int int_str (page_number request) of None \<Rightarrow> 1
               | Some n \<Rightarrow> if n < 1 \<or> n > 3 then 3 else n) = 1"
      using p0 pk[where k = 1] by auto
    from r[OF this[symmetric]] show "posts_list int_str request st =
          Inr (Render ''blog/index.html''
            [(''page_object'', CPage \<lparr>page_object_list = take 10 (posts st), number = 1,
                paginator = \<lparr>object_list = posts st, per_page = 10\<rparr>\<rparr>),
             (''is_paginated'', CBool True),
             (''next_url'', CStr ''?page=2''), (''prev_url'', CStr [])])"
      by (simp add: str_int_123)
  next
    assume "\<exists>s. querydict_get (GET request) ''page'' = Some s \<and> int_str s = Some 2"
    then have "(case py_int int_str (page_number request) of None \<Rightarrow> 1
               | Some n \<Rightarrow> if n < 1 \<or> n > 3 then 3 else n) = 2"
      using pk[where k = 2] by auto
    from r[OF this[symmetric]] show "posts_list int_str request st =
          Inr (Render ''blog/index.html''
            [(''page_object'', CPage \<lparr>page_object_list = take 10 (drop 10 (posts st)), number = 2,
                paginator = \<lparr>object_list = posts st, per_page = 10\<rparr>\<rparr>),
             (''is_paginated'', CBool True),
             (''next_url'', CStr ''?page=3''), (''prev_url'', CStr ''?page=1'')])"
      by (simp add: str_int_123)
  next
    assume "\<exists>s. querydict_get (GET request) ''page'' = Some s \<and> int_str s = Some 3"
    then have "(case py_int int_str (page_number request) of None \<Rightarrow> 1
               | Some n \<Rightarrow> if n < 1 \<or> n > 3 then 3 else n) = 3"
      using pk[where k = 3] by auto
    from r[OF this[symmetric]] show "posts_list int_str request st =
          Inr (Render ''blog/index.html''
            [(''page_object'', CPage \<lparr>page_object_list = drop 20 (posts st), number = 3,
                paginator = \<lparr>object_list = posts st, per_page = 10\<rparr>\<rparr>),
             (''is_paginated'', CBool True),
             (''next_url'', CStr []), (''prev_url'', CStr ''?page=2'')])"
      by (simp add: str_int_123 t3)
  qed
qed

theorem pagination_25_witness:
  "posts_list ascii_int (visitor ''GET'' [(''page'', ''1'')]) blog25 =
     Inr (Render ''blog/index.html''
       [(''page_object'', CPage \<lparr>page_object_list = take 10 (posts blog25), number = 1,
           paginator = \<lparr>object_list = posts blog25, per_page = 10\<rparr>\<rparr>),
        (''is_paginated'', CBool True),
        (''next_url'', CStr ''?page=2''), (''prev_url'', CStr [])])
   \<and> posts_list ascii_int (visitor ''GET'' [(''page'', ''2'')]) blog25 =
     Inr (Render ''blog/index.html''
       [(''page_object'', CPage \<lparr>page_object_list = take 10 (drop 10 (posts blog25)), number = 2,
           paginator = \<lparr>object_list = posts blog25, per_page = 10\<rparr>\<rparr>),
        (''is_paginated'', CBool True),
        (''next_url'', CStr ''?page=3''), (''prev_url'', CStr ''?page=1'')])
   \<and> posts_list ascii_int (visitor ''GET'' [(''page'', ''3'')]) blog25 =
     Inr (Render ''blog/index.html''
       [(''page_object'', CPage \<lparr>page_object_list = drop 20 (posts blog25), number = 3,
           paginator = \<lparr>object_list = posts blog25, per_page = 10\<rparr>\<rparr>),
        (''is_paginated'', CBool True),
        (''next_url'', CStr []), (''prev_url'', CStr ''?page=2'')])"
proof -
  have s: "search_query (visitor ''GET'' [(''page'', v)]) = []" for v
    by (simp add: search_query_def visitor_simps querydict_get_def)
  have p: "querydict_get (GET (visitor ''GET'' [(''page'', v)])) ''page'' = Some v" for v
    by (simp add: visitor_simps querydict_get_def)
  show ?thesis
    using pagination_25 [OF blog25_length s, where v1 = "''1''" and int_str = ascii_int]
      pagination_25 [OF blog25_length s, where v1 = "''2''" and int_str = ascii_int]
      pagination_25 [OF blog25_length s, where v1 = "''3''" and int_str = ascii_int]
    by (simp add: p ascii_int_samples)
qed

section \<open>Listing without a search term\<close>

text \<open>
  C9. When the search parameter is absent or is the empty string, the result set that the
  list view paginates is all stored Posts, unfiltered and in the store's order.
\<close>

theorem list_unfiltered:
  assumes "querydict_get (GET request) ''search'' = None
           \<or> querydict_get (GET request) ''search'' = Some []"
  shows "\<exists>pg is_paginated next_url prev_url.
     posts_list int_str request st =
       Inr (Render ''blog/index.html''
          [(''page_object'', CPage pg), (''is_paginated'', CBool is_paginated),
           (''next_url'', CStr next_url), (''prev_url'', CStr prev_url)])
     \<and> object_list (paginator pg) = posts st
     \<and> page_object_list pg = take 10 (drop (10 * nat (number pg - 1)) (posts st))"
proof -
  have "search_query request = []" using assms by (auto simp: search_query_def)
  then have qs: "posts_queryset request st = posts st" by (simp add: posts_queryset_def)
  show ?thesis
    using posts_list_shape[of int_str request st] unfolding qs by force
qed

theorem list_unfiltered_witness:
  "(\<exists>pg is_paginated next_url prev_url.
      posts_list ascii_int (visitor ''GET'' []) blog =
        Inr (Render ''blog/index.html''
          [(''page_object'', CPage pg), (''is_paginated'', CBool is_paginated),
           (''next_url'', CStr next_url), (''prev_url'', CStr prev_url)])
      \<and> object_list (paginator pg) = [hello_post])
   \<and> (\<exists>pg is_paginated next_url prev_url.
      posts_list ascii_int (visitor ''GET'' [(''search'', [])]) blog =
        Inr (Render ''blog/index.html''
          [(''page_object'', CPage pg), (''is_paginated'', CBool is_paginated),
           (''next_url'', CStr next_url), (''prev_url'', CStr prev_url)])
      \<and> object_list (paginator pg) = [hello_post])"
proof -
  have a: "querydict_get (GET (visitor ''GET'' [])) ''search'' = None
           \<or> querydict_get (GET (visitor ''GET'' [])) ''search'' = Some []"
    and e: "querydict_get (GET (visitor ''GET'' [(''search'', [])])) ''search'' = None
           \<or> querydict_get (GET (visitor ''GET'' [(''search'', [])])) ''search'' = Some []"
    by (simp_all add: visitor_simps querydict_get_def)
  show ?thesis
    using list_unfiltered [OF a, where st = blog and int_str = ascii_int]
      list_unfiltered [OF e, where st = blog and int_str = ascii_int]
    by (simp add: blog_simps) blast
qed

section \<open>Any page parameter\<close>

text \<open>
  C10. Whatever the query string holds and whatever \<open>int\<close> makes of it, the list view
  answers with its rendered page and raises nothing. The page shown has a number between 1
  and the number of pages and holds that slice of ten of the result set, which is not
  empty unless the result set is; the links are those of that page number. A missing page
  parameter and one that \<open>int\<close> rejects give page 1; one that \<open>int\<close> reads as an integer
  beyond the last page, or below 1, gives the last page; one that it reads as the number
  of a page gives that page.
\<close>

theorem page_parameter_total:
  "\<exists>pg.
     posts_list int_str request st =
       Inr (Render ''blog/index.html''
          [(''page_object'', CPage pg),
           (''is_paginated'',
            CBool (1 < number pg \<or> number pg < int (num_pages (paginator pg)))),
           (''next_url'',
            CStr (if number pg < int (num_pages (paginator pg))
                  then ''?page='' @ str_int (number pg + 1) else [])),
           (''prev_url'',
            CStr (if 1 < number pg then ''?page='' @ str_int (number pg - 1) else []))])
     \<and> paginator pg = \<lparr>object_list = posts_queryset request st, per_page = 10\<rparr>
     \<and> page_object_list pg =
         take 10 (drop (10 * nat (number pg - 1)) (posts_queryset request st))
     \<and> (posts_queryset request st \<noteq> [] \<longrightarrow> page_object_list pg \<noteq> [])
     \<and> 1 \<le> number pg \<and> number pg \<le> int (num_pages (paginator pg))
     \<and> (querydict_get (GET request) ''page'' = None \<longrightarrow> number pg = 1)
     \<and> (\<forall>s. querydict_get (GET request) ''page'' = Some s \<and> int_str s = None
            \<longrightarrow> number pg = 1)
     \<and> (\<forall>s n. querydict_get (GET request) ''page'' = Some s \<and> int_str s = Some n
              \<and> n > int (num_pages (paginator pg))
            \<longrightarrow> number pg = int (num_pages (paginator pg)))
     \<and> (\<forall>s n. querydict_get (GET request) ''page'' = Some s \<and> int_str s = Some n
              \<and> n < 1
            \<longrightarrow> number pg = int (num_pages (paginator pg)))
     \<and> (\<forall>s n. querydict_get (GET request) ''page'' = Some s \<and> int_str s = Some n
              \<and> 1 \<le> n \<and> n \<le> int (num_pages (paginator pg))
            \<longrightarrow> number pg = n)"
proof -
  define pgn where "pgn = \<lparr>object_list = posts_queryset request st, per_page = 10\<rparr>"
  define k where "k = (case py_int int_str (page_number request) of None \<Rightarrow> 1
      | Some n \<Rightarrow> if n < 1 \<or> n > int (num_pages pgn) then int (num_pages pgn) else n)"
  define pg where "pg = \<lparr>page_object_list =
        take 10 (drop (10 * nat (k - 1)) (posts_queryset request st)),
      number = k, paginator = pgn\<rparr>"
  have pp: "per_page pgn = 10" by (simp add: pgn_def)
  have ol: "object_list pgn = posts_queryset request st" by (simp add: pgn_def)
  have r: "posts_list int_str request st =
       Inr (Render ''blog/index.html''
          [(''page_object'', CPage pg),
           (''is_paginated'', CBool (1 < k \<or> k < int (num_pages pgn))),
           (''next_url'',
            CStr (if k < int (num_pages pgn) then ''?page='' @ str_int (k + 1) else [])),
           (''prev_url'', CStr (if 1 < k then ''?page='' @ str_int (k - 1) else []))])"
    unfolding pg_def k_def pgn_def by (rule posts_list_render)
  have rng: "1 \<le> k \<and> k \<le> int (num_pages pgn)"
    unfolding k_def by (rule chosen_in_range[OF pp])
  have ne: "posts_queryset request st \<noteq> [] \<Longrightarrow>
      take 10 (drop (10 * nat (k - 1)) (posts_queryset request st)) \<noteq> []"
    using page_not_empty[OF pp, of k] rng by (simp add: ol)
  have a: "querydict_get (GET request) ''page'' = None \<Longrightarrow> k = 1"
    using num_pages_pos[OF pp] by (simp add: k_def page_number_def py_int_def)
  have b: "querydict_get (GET request) ''page'' = Some s \<Longrightarrow> int_str s = None \<Longrightarrow> k = 1"
    for s
    by (simp add: k_def page_number_def py_int_def)
  have c: "querydict_get (GET request) ''page'' = Some s \<Longrightarrow> int_str s = Some m
      \<Longrightarrow> m > int (num_pages pgn) \<Longrightarrow> k = int (num_pages pgn)" for s m
    by (simp add: k_def page_number_def py_int_def)
  have d: "querydict_get (GET request) ''page'' = Some s \<Longrightarrow> int_str s = Some m
      \<Longrightarrow> m < 1 \<Longrightarrow> k = int (num_pages pgn)" for s m
    by (simp add: k_def page_number_def py_int_def)
  have e: "querydict_get (GET request) ''page'' = Some s \<Longrightarrow> int_str s = Some m
      \<Longrightarrow> 1 \<le> m \<Longrightarrow> m \<le> int (num_pages pgn) \<Longrightarrow> k = m" for s m
    by (simp add: k_def page_number_def py_int_def)
  have f: "number pg = k" "paginator pg = pgn"
    "page_object_list pg = take 10 (drop (10 * nat (k - 1)) (posts_queryset request st))"
    by (simp_all add: pg_def)
  show ?thesis
    apply (rule exI[of _ pg])
    apply (simp only: f)
    apply (fold pgn_def)
    using r rng ne a b c d e
    apply (intro conjI)
    apply simp_all
    done
qed

theorem page_parameter_total_witness:
  "(\<exists>pg. posts_list ascii_int (visitor ''GET'' []) blog25 =
        Inr (Render ''blog/index.html''
          [(''page_object'', CPage pg), (''is_paginated'', CBool True),
           (''next_url'', CStr ''?page=2''), (''prev_url'', CStr [])])
      \<and> number pg = 1 \<and> page_object_list pg = take 10 (posts blog25))
   \<and> (\<exists>pg. posts_list ascii_int (visitor ''GET'' [(''page'', ''abc'')]) blog25 =
        Inr (Render ''blog/index.html''
          [(''page_object'', CPage pg), (''is_paginated'', CBool True),
           (''next_url'', CStr ''?page=2''), (''prev_url'', CStr [])])
      \<and> number pg = 1 \<and> page_object_list pg = take 10 (posts blog25))
   \<and> (\<exists>pg. posts_list ascii_int (visitor ''GET'' [(''page'', ''99'')]) blog25 =
        Inr (Render ''blog/index.html''
          [(''page_object'', CPage pg), (''is_paginated'', CBool True),
           (''next_url'', CStr []), (''prev_url'', CStr ''?page=2'')])
      \<and> number pg = 3 \<and> page_object_list pg = drop 20 (posts blog25))
   \<and> (\<exists>pg. posts_list ascii_int (visitor ''GET'' [(''page'', ''0'')]) blog25 =
        Inr (Render ''blog/index.html''
          [(''page_object'', CPage pg), (''is_paginated'', CBool True),
           (''next_url'', CStr []), (''prev_url'', CStr ''?page=2'')])
      \<and> number pg = 3 \<and> page_object_list pg = drop 20 (posts blog25))
   \<and> (\<exists>pg. posts_list ascii_int (visitor ''GET'' [(''page'', ''2'')]) blog25 =
        Inr (Render ''blog/index.html''
          [(''page_object'', CPage pg), (''is_paginated'', CBool True),
           (''next_url'', CStr ''?page=3''), (''prev_url'', CStr ''?page=1'')])
      \<and> number pg = 2 \<and> page_object_list pg = take 10 (drop 10 (posts blog25)))"
proof -
  have s: "posts_queryset (visitor ''GET'' qd) blog25 = posts blog25"
    if "querydict_get qd ''search'' = None" for qd
    using that by (simp add: posts_queryset_def search_query_def visitor_simps)
  have np: "int (num_pages \<lparr>object_list = posts blog25, per_page = 10\<rparr>) = 3"
    by (simp add: num_pages_10 blog25_length)
  have q: "querydict_get [] ''page'' = None" "querydict_get [] ''search'' = None"
    "querydict_get [(''page'', v)] ''page'' = Some v"
    "querydict_get [(''page'', v)] ''search'' = None" for v
    by (simp_all add: querydict_get_def)
  have t3: "take 10 (drop 20 (posts blog25)) = drop 20 (posts blog25)"
    by (simp add: blog25_length)
  obtain pg1 where
    r1: "posts_list ascii_int (visitor ''GET'' []) blog25 =
       Inr (Render ''blog/index.html''
          [(''page_object'', CPage pg1),
           (''is_paginated'',
            CBool (1 < number pg1 \<or> number pg1 < int (num_pages (paginator pg1)))),
           (''next_url'',
            CStr (if number pg1 < int (num_pages (paginator pg1))
                  then ''?page='' @ str_int (number pg1 + 1) else [])),
           (''prev_url'',
            CStr (if 1 < number pg1 then ''?page='' @ str_int (number pg1 - 1) else []))])"
    and p1: "paginator pg1 =
        \<lparr>object_list = posts_queryset (visitor ''GET'' []) blog25, per_page = 10\<rparr>"
    and o1: "page_object_list pg1 =
         take 10 (drop (10 * nat (number pg1 - 1)) (posts_queryset (visitor ''GET'' []) blog25))"
    and n1: "querydict_get (GET (visitor ''GET'' [])) ''page'' = None \<longrightarrow> number pg1 = 1"
    using page_parameter_total [of ascii_int "visitor ''GET'' []" blog25]
    by (elim exE conjE) (rule that; assumption)
  obtain pg2 where
    r2: "posts_list ascii_int (visitor ''GET'' [(''page'', ''abc'')]) blog25 =
       Inr (Render ''blog/index.html''
          [(''page_object'', CPage pg2),
           (''is_paginated'',
            CBool (1 < number pg2 \<or> number pg2 < int (num_pages (paginator pg2)))),
           (''next_url'',
            CStr (if number pg2 < int (num_pages (paginator pg2))
                  then ''?page='' @ str_int (number pg2 + 1) else [])),
           (''prev_url'',
            CStr (if 1 < number pg2 then ''?page='' @ str_int (number pg2 - 1) else []))])"
    and p2: "paginator pg2 =
        \<lparr>object_list = posts_queryset (visitor ''GET'' [(''page'', ''abc'')]) blog25,
         per_page = 10\<rparr>"
    and o2: "page_object_list pg2 =
         take 10 (drop (10 * nat (number pg2 - 1))
           (posts_queryset (visitor ''GET'' [(''page'', ''abc'')]) blog25))"
    and n2: "\<forall>s. querydict_get (GET (visitor ''GET'' [(''page'', ''abc'')])) ''page'' = Some s
                \<and> ascii_int s = None \<longrightarrow> number pg2 = 1"
    using page_parameter_total [of ascii_int "visitor ''GET'' [(''page'', ''abc'')]" blog25]
    by (elim exE conjE) (rule that; assumption)
  obtain pg3 where
    r3: "posts_list ascii_int (visitor ''GET'' [(''page'', ''99'')]) blog25 =
       Inr (Render ''blog/index.html''
          [(''page_object'', CPage pg3),
           (''is_paginated'',
            CBool (1 < number pg3 \<or> number pg3 < int (num_pages (paginator pg3)))),
           (''next_url'',
            CStr (if number pg3 < int (num_pages (paginator pg3))
                  then ''?page='' @ str_int (number pg3 + 1) else [])),
           (''prev_url'',
            CStr (if 1 < number pg3 then ''?page='' @ str_int (number pg3 - 1) else []))])"
    and p3: "paginator pg3 =
        \<lparr>object_list = posts_queryset (visitor ''GET'' [(''page'', ''99'')]) blog25,
         per_page = 10\<rparr>"
    and o3: "page_object_list pg3 =
         take 10 (drop (10 * nat (number pg3 - 1))
           (posts_queryset (visitor ''GET'' [(''page'', ''99'')]) blog25))"
    and n3: "\<forall>s n. querydict_get (GET (visitor ''GET'' [(''page'', ''99'')])) ''page'' = Some s
                \<and> ascii_int s = Some n \<and> n > int (num_pages (paginator pg3))
              \<longrightarrow> number pg3 = int (num_pages (paginator pg3))"
    using page_parameter_total [of ascii_int "visitor ''GET'' [(''page'', ''99'')]" blog25]
    by (elim exE conjE) (rule that; assumption)
  obtain pg4 where
    r4: "posts_list ascii_int (visitor ''GET'' [(''page'', ''0'')]) blog25 =
       Inr (Render ''blog/index.html''
          [(''page_object'', CPage pg4),
           (''is_paginated'',
            CBool (1 < number pg4 \<or> number pg4 < int (num_pages (paginator pg4)))),
           (''next_url'',
            CStr (if number pg4 < int (num_pages (paginator pg4))
                  then ''?page='' @ str_int (number pg4 + 1) else [])),
           (''prev_url'',
            CStr (if 1 < number pg4 then ''?page='' @ str_int (number pg4 - 1) else []))])"
    and p4: "paginator pg4 =
        \<lparr>object_list = posts_queryset (visitor ''GET'' [(''page'', ''0'')]) blog25,
         per_page = 10\<rparr>"
    and o4: "page_object_list pg4 =
         take 10 (drop (10 * nat (number pg4 - 1))
           (posts_queryset (visitor ''GET'' [(''page'', ''0'')]) blog25))"
    and n4: "\<forall>s n. querydict_get (GET (visitor ''GET'' [(''page'', ''0'')])) ''page'' = Some s
                \<and> ascii_int s = Some n \<and> n < 1
              \<longrightarrow> number pg4 = int (num_pages (paginator pg4))"
    using page_parameter_total [of ascii_int "visitor ''GET'' [(''page'', ''0'')]" blog25]
    by (elim exE conjE) (rule that; assumption)
  obtain pg5 where
    r5: "posts_list ascii_int (visitor ''GET'' [(''page'', ''2'')]) blog25 =
       Inr (Render ''blog/index.html''
          [(''page_object'', CPage pg5),
           (''is_paginated'',
            CBool (1 < number pg5 \<or> number pg5 < int (num_pages (paginator pg5)))),
           (''next_url'',
            CStr (if number pg5 < int (num_pages (paginator pg5))
                  then ''?page='' @ str_int (number pg5 + 1) else [])),
           (''prev_url'',
            CStr (if 1 < number pg5 then ''?page='' @ str_int (number pg5 - 1) else []))])"
    and p5: "paginator pg5 =
        \<lparr>object_list = posts_queryset (visitor ''GET'' [(''page'', ''2'')]) blog25,
         per_page = 10\<rparr>"
    and o5: "page_object_list pg5 =
         take 10 (drop (10 * nat (number pg5 - 1))
           (posts_queryset (visitor ''GET'' [(''page'', ''2'')]) blog25))"
    and n5: "\<forall>s n. querydict_get (GET (visitor ''GET'' [(''page'', ''2'')])) ''page'' = Some s
                \<and> ascii_int s = Some n \<and> 1 \<le> n \<and> n \<le> int (num_pages (paginator pg5))
              \<longrightarrow> number pg5 = n"
    using page_parameter_total [of ascii_int "visitor ''GET'' [(''page'', ''2'')]" blog25]
    by (elim exE conjE) (rule that; assumption)
  have k1: "int (num_pages (paginator pg1)) = 3"
    and k2: "int (num_pages (paginator pg2)) = 3"
    and k3: "int (num_pages (paginator pg3)) = 3"
    and k4: "int (num_pages (paginator pg4)) = 3"
    and k5: "int (num_pages (paginator pg5)) = 3"
    by (simp_all add: p1 p2 p3 p4 p5 s q np)
  have m1: "number pg1 = 1"
    using n1 by (simp add: visitor_simps q)
  have m2: "number pg2 = 1"
    using n2 by (simp add: visitor_simps q ascii_int_samples)
  have m3: "number pg3 = 3"
    using n3 k3 by (simp add: visitor_simps q ascii_int_samples)
  have m4: "number pg4 = 3"
    using n4 k4 by (simp add: visitor_simps q ascii_int_samples)
  have m5: "number pg5 = 2"
    using n5 k5 by (simp add: visitor_simps q ascii_int_samples)
  have c1: "\<exists>pg. posts_list ascii_int (visitor ''GET'' []) blog25 =
        Inr (Render ''blog/index.html''
          [(''page_object'', CPage pg), (''is_paginated'', CBool True),
           (''next_url'', CStr ''?page=2''), (''prev_url'', CStr [])])
      \<and> number pg = 1 \<and> page_object_list pg = take 10 (posts blog25)"
    using r1 o1 by (intro exI[of _ pg1]) (simp add: m1 k1 s q str_int_123)
  have c2: "\<exists>pg. posts_list ascii_int (visitor ''GET'' [(''page'', ''abc'')]) blog25 =
        Inr (Render ''blog/index.html''
          [(''page_object'', CPage pg), (''is_paginated'', CBool True),
           (''next_url'', CStr ''?page=2''), (''prev_url'', CStr [])])
      \<and> number pg = 1 \<and> page_object_list pg = take 10 (posts blog25)"
    using r2 o2 by (intro exI[of _ pg2]) (simp add: m2 k2 s q str_int_123)
  have c3: "\<exists>pg. posts_list ascii_int (visitor ''GET'' [(''page'', ''99'')]) blog25 =
        Inr (Render ''blog/index.html''
          [(''page_object'', CPage pg), (''is_paginated'', CBool True),
           (''next_url'', CStr []), (''prev_url'', CStr ''?page=2'')])
      \<and> number pg = 3 \<and> page_object_list pg = drop 20 (posts blog25)"
    using r3 o3 by (intro exI[of _ pg3]) (simp add: m3 k3 s q str_int_123 t3)
  have c4: "\<exists>pg. posts_list ascii_int (visitor ''GET'' [(''page'', ''0'')]) blog25 =
        Inr (Render ''blog/index.html''
          [(''page_object'', CPage pg), (''is_paginated'', CBool True),
           (''next_url'', CStr []), (''prev_url'', CStr ''?page=2'')])
      \<and> number pg = 3 \<and> page_object_list pg = drop 20 (posts blog25)"
    using r4 o4 by (intro exI[of _ pg4]) (simp add: m4 k4 s q str_int_123 t3)
  have c5: "\<exists>pg. posts_list ascii_int (visitor ''GET'' [(''page'', ''2'')]) blog25 =
        Inr (Render ''blog/index.html''
          [(''page_object'', CPage pg), (''is_paginated'', CBool True),
           (''next_url'', CStr ''?page=3''), (''prev_url'', CStr ''?page=1'')])
      \<and> number pg = 2 \<and> page_object_list pg = take 10 (drop 10 (posts blog25))"
    using r5 o5 by (intro exI[of _ pg5]) (simp add: m5 k5 s q str_int_123)
  show ?thesis
    using c1 c2 c3 c4 c5 by (intro conjI)
qed

end
